theory Spec2Isabelle
  imports Complex_Main "HOL-Library.List_Lexorder" "HOL-Library.Sublist"
begin

section \<open>Python strings\<close>

text \<open>
  A Python \<open>str\<close> is a sequence of Unicode code points, so a string is a list of
  natural numbers. The page being parsed is Chinese, and the character classes of
  \<open>re\<close> and \<open>str.strip\<close> are the Unicode ones, which is why the 8-bit \<open>char\<close>
  of HOL is not used. \<open>py\<close> turns an ASCII literal into such a string.
\<close>

type_synonym pystr = "nat list"

definition py :: "string \<Rightarrow> pystr" where
  "py s = map of_char s"

text \<open>
  The code points for which \<open>str.isspace\<close> holds. \<open>str.strip()\<close> without an
  argument and the class \<open>\s\<close> of a \<open>str\<close> pattern both use this set.
\<close>

definition is_space :: "nat \<Rightarrow> bool" where
  "is_space c = (c \<in> set [9, 10, 11, 12, 13, 28, 29, 30, 31, 32, 133, 160, 5760,
       8192, 8193, 8194, 8195, 8196, 8197, 8198, 8199, 8200, 8201, 8202,
       8232, 8233, 8239, 8287, 12288])"

text \<open>
  The class \<open>\d\<close> of a \<open>str\<close> pattern is every code point of category Nd, and
  \<open>float\<close> reads each of them as its decimal value. The decimal digits come in runs
  of ten, zero to nine; the table lists the zero of every run (Unicode 14.0).
\<close>

definition decimal_zeros :: "nat list" where
  "decimal_zeros = [48, 1632, 1776, 1984, 2406, 2534, 2662, 2790, 2918, 3046, 3174,
     3302, 3430, 3558, 3664, 3792, 3872, 4160, 4240, 6112, 6160, 6470, 6608, 6784,
     6800, 6992, 7088, 7232, 7248, 42528, 43216, 43264, 43472, 43504, 43600, 44016,
     65296, 66720, 68912, 69734, 69872, 69942, 70096, 70384, 70736, 70864, 71248,
     71360, 71472, 71904, 72016, 72784, 73040, 73120, 92768, 92864, 93008, 120782,
     120792, 120802, 120812, 120822, 123200, 123632, 125264, 130032]"

definition decimal_zero_of :: "nat \<Rightarrow> nat option" where
  "decimal_zero_of c = find (\<lambda>z. z \<le> c \<and> c < z + 10) decimal_zeros"

definition is_decimal :: "nat \<Rightarrow> bool" where
  "is_decimal c = (decimal_zero_of c \<noteq> None)"

definition digit_value :: "nat \<Rightarrow> nat" where
  "digit_value c = (case decimal_zero_of c of None \<Rightarrow> 0 | Some z \<Rightarrow> c - z)"

text \<open>\<open>s.strip()\<close>: whitespace is removed at both ends.\<close>

definition strip :: "pystr \<Rightarrow> pystr" where
  "strip s = rev (dropWhile is_space (rev (dropWhile is_space s)))"

section \<open>The category registry\<close>

datatype error = KeyError | AttributeError | ValueError | IndexError | ZeroDivisionError

datatype GoldType = JEWELRY | PHYSICAL | GOLD_BAR

text \<open>The \<open>value\<close> of each member of the enumeration.\<close>

fun GoldType_value :: "GoldType \<Rightarrow> pystr" where
  "GoldType_value JEWELRY = py ''jewelry''"
| "GoldType_value PHYSICAL = py ''physical''"
| "GoldType_value GOLD_BAR = py ''gold_bar''"

text \<open>
  The annotation \<open>gold_type: GoldType\<close> is not enforced by Python: a caller can pass
  any object. An identifier outside the enumeration is modelled as a string, such as
  the code of a category that was never registered.
\<close>

datatype category_id = Member GoldType | Foreign pystr

record config =
  name :: pystr
  filename_prefix :: pystr
  url_params :: "(pystr \<times> int) list"
  description :: pystr

text \<open>
  \<open>GOLD_CONFIGS\<close>, a dictionary keyed by the members of the enumeration. The display
  names and descriptions are Chinese text, given by code points.
\<close>

definition GOLD_CONFIGS :: "(category_id \<times> config) list" where
  "GOLD_CONFIGS =
    [(Member JEWELRY,
       \<lparr>name = [39318, 39280, 40644, 37329],
        filename_prefix = py ''jewelry_gold'',
        url_params = [(py ''pp'', 0), (py ''pz'', 15)],
        description = [21508, 22823, 21697, 29260, 39318, 39280, 40644, 37329,
                       20215, 26684, 25968, 25454]\<rparr>),
     (Member PHYSICAL,
       \<lparr>name = [23454, 29289, 40644, 37329],
        filename_prefix = py ''physical_gold'',
        url_params = [(py ''pp'', 0), (py ''pz'', 11)],
        description = [23454, 29289, 40644, 37329, 25237, 36164, 20135, 21697,
                       20215, 26684, 25968, 25454]\<rparr>),
     (Member GOLD_BAR,
       \<lparr>name = [37329, 26465],
        filename_prefix = py ''gold_bar'',
        url_params = [(py ''pp'', 0), (py ''pz'', 15)],
        description = [21508, 31181, 35268, 26684, 37329, 26465, 20215, 26684,
                       25968, 25454]\<rparr>)]"

text \<open>\<open>d[k]\<close> raises \<open>KeyError\<close> on a missing key; \<open>d.get(k, default)\<close> does not.\<close>

definition subscript :: "('k \<times> 'v) list \<Rightarrow> 'k \<Rightarrow> error + 'v" where
  "subscript d k = (case map_of d k of None \<Rightarrow> Inl KeyError | Some v \<Rightarrow> Inr v)"

definition dict_get :: "('k \<times> 'v) list \<Rightarrow> 'k \<Rightarrow> 'v \<Rightarrow> 'v" where
  "dict_get d k dflt = (case map_of d k of None \<Rightarrow> dflt | Some v \<Rightarrow> v)"

text \<open>
  \<open>GoldDataConfig.get_config\<close>:
  \<open>cls.GOLD_CONFIGS.get(gold_type, cls.GOLD_CONFIGS[GoldType.JEWELRY])\<close>.
  The default is evaluated first, then the lookup.
\<close>

definition get_config :: "category_id \<Rightarrow> error + config" where
  "get_config gold_type =
     (case subscript GOLD_CONFIGS (Member JEWELRY) of
        Inl e \<Rightarrow> Inl e
      | Inr dflt \<Rightarrow> Inr (dict_get GOLD_CONFIGS gold_type dflt))"

section \<open>Regular expressions\<close>

text \<open>
  The three patterns of the program are sequences of single-character classes, each
  taken once, optionally (\<open>?\<close>), any number of times (\<open>*\<close>) or at least once
  (\<open>+\<close>), with capture groups that do not nest. \<open>re\<close> matches by backtracking: a
  greedy quantifier first takes one more character and falls back to the rest of the
  pattern when that fails. The flag \<open>re.DOTALL\<close> changes only the meaning of an
  unescaped dot, which none of the patterns has.
\<close>

datatype cls = Lit nat | Not nat | Space | Digit

fun inC :: "cls \<Rightarrow> nat \<Rightarrow> bool" where
  "inC (Lit d) x = (x = d)"
| "inC (Not d) x = (x \<noteq> d)"
| "inC Space x = is_space x"
| "inC Digit x = is_decimal x"

datatype item = One cls | Star cls | Plus cls | Opt cls | Open | Close

text \<open>A consumed character is added to the group that is open, if one is.\<close>

fun add_char :: "nat \<Rightarrow> pystr option \<Rightarrow> pystr option" where
  "add_char x None = None"
| "add_char x (Some g) = Some (g @ [x])"

text \<open>
  \<open>rmatch p s caps grp\<close> matches the pattern \<open>p\<close> at the start of \<open>s\<close>;
  \<open>caps\<close> are the groups closed so far and \<open>grp\<close> the text of the open group.
  The result is the captured groups and the text after the match.
\<close>

fun rmatch :: "item list \<Rightarrow> pystr \<Rightarrow> pystr list \<Rightarrow> pystr option \<Rightarrow> (pystr list \<times> pystr) option" where
  "rmatch [] s caps grp = Some (caps, s)"
| "rmatch (Open # r) s caps grp = rmatch r s caps (Some [])"
| "rmatch (Close # r) s caps grp =
     (case grp of None \<Rightarrow> None | Some g \<Rightarrow> rmatch r s (caps @ [g]) None)"
| "rmatch (One c # r) [] caps grp = None"
| "rmatch (One c # r) (x # s) caps grp =
     (if inC c x then rmatch r s caps (add_char x grp) else None)"
| "rmatch (Plus c # r) [] caps grp = None"
| "rmatch (Plus c # r) (x # s) caps grp =
     (if inC c x then rmatch (Star c # r) s caps (add_char x grp) else None)"
| "rmatch (Opt c # r) [] caps grp = rmatch r [] caps grp"
| "rmatch (Opt c # r) (x # s) caps grp =
     (if inC c x
      then (case rmatch r s caps (add_char x grp) of
              Some res \<Rightarrow> Some res
            | None \<Rightarrow> rmatch r (x # s) caps grp)
      else rmatch r (x # s) caps grp)"
| "rmatch (Star c # r) [] caps grp = rmatch r [] caps grp"
| "rmatch (Star c # r) (x # s) caps grp =
     (if inC c x
      then (case rmatch (Star c # r) s caps (add_char x grp) of
              Some res \<Rightarrow> Some res
            | None \<Rightarrow> rmatch r (x # s) caps grp)
      else rmatch r (x # s) caps grp)"

text \<open>\<open>re.search\<close>: the match at the first position where the pattern matches.\<close>

fun search :: "item list \<Rightarrow> pystr \<Rightarrow> pystr list option" where
  "search p [] = map_option fst (rmatch p [] [] None)"
| "search p (x # s) =
     (case rmatch p (x # s) [] None of
        Some (caps, rest) \<Rightarrow> Some caps
      | None \<Rightarrow> search p s)"

text \<open>
  \<open>re.findall\<close> for a pattern with several groups: the groups of every match, left to
  right, the next search starting where the last match ended (one character further
  after a match that consumed nothing).
\<close>

function findall :: "item list \<Rightarrow> pystr \<Rightarrow> pystr list list" where
  "findall p [] = (case rmatch p [] [] None of Some (caps, rest) \<Rightarrow> [caps] | None \<Rightarrow> [])"
| "findall p (x # s) =
     (case rmatch p (x # s) [] None of
        Some (caps, rest) \<Rightarrow>
          caps # (if length rest \<le> length s then findall p rest else findall p s)
      | None \<Rightarrow> findall p s)"
  by pat_completeness auto
termination
  by (relation "measure (\<lambda>(p, s). length s)") auto

text \<open>The literal characters of a pattern.\<close>

definition lits :: "string \<Rightarrow> item list" where
  "lits s = map (\<lambda>c. One (Lit (of_char c))) s"

text \<open>
  One cell of \<open>pattern\<close>, \<open><td[^>]*>([^<]*)</td>\<close>, one cell of \<open>pattern2\<close>,
  \<open><td[^>]*><div[^>]*>([^<]*)</div></td>\<close>, and the \<open>\s*\<close> between two cells.
\<close>

definition td_cell :: "item list" where
  "td_cell = lits ''<td'' @ [Star (Not 62), One (Lit 62), Open, Star (Not 60), Close]
     @ lits ''</td>''"

definition div_cell :: "item list" where
  "div_cell = lits ''<td'' @ [Star (Not 62), One (Lit 62)] @ lits ''<div''
     @ [Star (Not 62), One (Lit 62), Open, Star (Not 60), Close] @ lits ''</div></td>''"

definition gap :: "item list" where
  "gap = [Star Space]"

definition pattern :: "item list" where
  "pattern = td_cell @ gap @ td_cell @ gap @ td_cell @ gap @ td_cell @ gap
     @ td_cell @ gap @ td_cell @ gap @ td_cell @ gap @ td_cell"

definition pattern2 :: "item list" where
  "pattern2 = div_cell @ gap @ div_cell @ gap @ div_cell @ gap @ div_cell @ gap
     @ div_cell @ gap @ div_cell @ gap @ div_cell @ gap @ div_cell"

text \<open>The price pattern \<open>(\d+\.?\d*)\<close>.\<close>

definition price_pattern :: "item list" where
  "price_pattern = [Open, Plus Digit, Opt (Lit 46), Star Digit, Close]"

section \<open>Numbers\<close>

text \<open>
  A Python \<open>float\<close> is modelled by the rational number it denotes. \<open>binary64\<close>
  rounds a rational to the nearest number with a 53-bit significand, ties to even, as
  IEEE 754 does for every single operation and as \<open>float\<close> does for a decimal
  string. The exponent is not bounded: the overflow to \<open>inf\<close> (a price of more than
  308 digits) and the subnormal numbers are outside the model.
\<close>

definition pow2 :: "int \<Rightarrow> rat" where
  "pow2 e = (if 0 \<le> e then 2 ^ nat e else 1 / 2 ^ nat (- e))"

function bit_length :: "nat \<Rightarrow> nat" where
  "bit_length n = (if n = 0 then 0 else Suc (bit_length (n div 2)))"
  by pat_completeness auto
termination
  by (relation "measure id") auto

declare bit_length.simps [simp del]

text \<open>
  \<open>ilog2 q\<close> is the exponent \<open>e\<close> with \<open>2 ^ e \<le> q < 2 ^ (e + 1)\<close>, for
  \<open>0 < q\<close>.
\<close>

definition ilog2 :: "rat \<Rightarrow> int" where
  "ilog2 q = (if 1 \<le> q then int (bit_length (nat \<lfloor>q\<rfloor>)) - 1
              else - int (bit_length (nat (\<lceil>1 / q\<rceil> - 1))))"

definition round_half_even :: "rat \<Rightarrow> int" where
  "round_half_even q =
     (let f = \<lfloor>q\<rfloor>; d = q - of_int f
      in if d < 1 / 2 then f else if 1 / 2 < d then f + 1
         else if even f then f else f + 1)"

definition binary64 :: "rat \<Rightarrow> rat" where
  "binary64 q =
     (if q = 0 then 0
      else let u = pow2 (ilog2 \<bar>q\<bar> - 52)
           in sgn q * of_int (round_half_even (\<bar>q\<bar> / u)) * u)"

text \<open>
  \<open>float(s)\<close> on the strings this program passes to it: digits, then optionally a
  dot and further digits. For any other string the model raises \<open>ValueError\<close>
  (Python accepts more, such as a sign or an exponent).
\<close>

definition digits_value :: "pystr \<Rightarrow> nat" where
  "digits_value ds = foldl (\<lambda>a d. 10 * a + digit_value d) 0 ds"

definition py_float :: "pystr \<Rightarrow> error + rat" where
  "py_float s =
     (let ip = takeWhile is_decimal s; r = dropWhile is_decimal s
      in if ip = [] then Inl ValueError
         else (case r of
                 [] \<Rightarrow> Inr (binary64 (of_nat (digits_value ip)))
               | x # fp \<Rightarrow>
                   if x = 46 \<and> list_all is_decimal fp
                   then Inr (binary64 (of_nat (digits_value ip)
                               + of_nat (digits_value fp) / 10 ^ length fp))
                   else Inl ValueError))"

section \<open>Extraction and normalization\<close>

text \<open>One element of a \<open>findall\<close> result: the tuple of the captured groups.\<close>

type_synonym raw_match = "pystr list"

text \<open>
  The first loop of \<open>parse_complete_gold_data\<close>, over \<open>matches1 + matches2\<close>: a
  match is kept when its key \<open>(match[0], match[1], match[2], match[3])\<close> has not been
  seen before.
\<close>

definition match_key :: "raw_match \<Rightarrow> pystr \<times> pystr \<times> pystr \<times> pystr" where
  "match_key m = (m ! 0, m ! 1, m ! 2, m ! 3)"

fun merge_loop :: "raw_match list \<Rightarrow> (pystr \<times> pystr \<times> pystr \<times> pystr) set \<Rightarrow> raw_match list \<Rightarrow> raw_match list" where
  "merge_loop [] seen all_matches = all_matches"
| "merge_loop (m # ms) seen all_matches =
     (if 7 \<le> length m
      then (let key = match_key m
            in if key \<notin> seen
               then merge_loop ms (insert key seen) (all_matches @ [m])
               else merge_loop ms seen all_matches)
      else merge_loop ms seen all_matches)"

text \<open>
  The dictionary built for one row. Its keys are fixed (Chinese words for date,
  brand, product, price, price value, unit, purity, craft fee, trend, category,
  category code, source and parse time), so it is a record; the fields carry the
  names of the program's variables. \<open>price_value\<close> is \<open>None\<close> or a float.
\<close>

record gold_record =
  date :: pystr
  brand :: pystr
  product :: pystr
  price :: pystr
  price_value :: "rat option"
  unit :: pystr
  purity :: pystr
  craft_fee :: pystr
  trend :: pystr
  gold_type_name :: pystr
  gold_type_code :: pystr
  data_source :: pystr
  parsed_at :: pystr

text \<open>
  \<open>gold_type.value\<close>: a member of the enumeration has a value, a string has no such
  attribute.
\<close>

fun attr_value :: "category_id \<Rightarrow> error + pystr" where
  "attr_value (Member g) = Inr (GoldType_value g)"
| "attr_value (Foreign s) = Inl AttributeError"

text \<open>
  \<open>price_match = re.search(r"(\d+\.?\d*)", price)\<close> and
  \<open>float(price_match.group(1)) if price_match else None\<close>.
\<close>

definition extract_price :: "pystr \<Rightarrow> error + rat option" where
  "extract_price price' =
     (case search price_pattern price' of
        None \<Rightarrow> Inr None
      | Some caps \<Rightarrow>
          (case caps of
             [] \<Rightarrow> Inl IndexError
           | g # _ \<Rightarrow> (case py_float g of Inl e \<Rightarrow> Inl e | Inr v \<Rightarrow> Inr (Some v))))"

text \<open>
  The body of the second loop for a match of at least 7 groups: the unpacking of
  \<open>match[:8]\<close> into eight names (a \<open>ValueError\<close> when there are only seven), the
  trimming (the trimmed values carry a prime here), the validity check and the
  record. \<open>stamp\<close> is what
  \<open>datetime.now().isoformat()\<close> returns for this row. The result is \<open>None\<close> when
  the row is skipped.
\<close>

definition normalize_row :: "config \<Rightarrow> category_id \<Rightarrow> pystr \<Rightarrow> raw_match \<Rightarrow> error + gold_record option" where
  "normalize_row cfg gold_type stamp m =
     (if length (take 8 m) \<noteq> 8 then Inl ValueError
      else
        let date' = strip (m ! 0);
            brand' = strip (m ! 1);
            product' = strip (m ! 2);
            price' = strip (m ! 3);
            unit' = strip (m ! 4);
            purity' = strip (m ! 5);
            craft_fee' = strip (m ! 6);
            trend' = strip (m ! 7)
        in if date' \<noteq> [] \<and> brand' \<noteq> [] \<and> product' \<noteq> [] \<and> price' \<noteq> [] \<and> unit' \<noteq> []
           then (case extract_price price' of
                   Inl e \<Rightarrow> Inl e
                 | Inr pv \<Rightarrow>
                     (case attr_value gold_type of
                        Inl e \<Rightarrow> Inl e
                      | Inr code \<Rightarrow>
                          Inr (Some \<lparr>date = date', brand = brand', product = product',
                                     price = price', price_value = pv, unit = unit',
                                     purity = purity', craft_fee = craft_fee', trend = trend',
                                     gold_type_name = name cfg, gold_type_code = code,
                                     data_source = [26032, 28010, 36130, 32463],
                                     parsed_at = stamp\<rparr>)))
           else Inr None)"

text \<open>
  The second loop. \<open>now k\<close> is the reading of the clock at its \<open>k\<close>-th call; the
  clock is read once for every record, so the record appended to \<open>gold_data\<close> reads
  \<open>now (length gold_data)\<close>.
\<close>

fun build_loop :: "config \<Rightarrow> category_id \<Rightarrow> (nat \<Rightarrow> pystr) \<Rightarrow> raw_match list \<Rightarrow> gold_record list \<Rightarrow> error + gold_record list" where
  "build_loop cfg gold_type now [] gold_data = Inr gold_data"
| "build_loop cfg gold_type now (m # ms) gold_data =
     (if 7 \<le> length m
      then (case normalize_row cfg gold_type (now (length gold_data)) m of
              Inl e \<Rightarrow> Inl e
            | Inr None \<Rightarrow> build_loop cfg gold_type now ms gold_data
            | Inr (Some data) \<Rightarrow> build_loop cfg gold_type now ms (gold_data @ [data]))
      else build_loop cfg gold_type now ms gold_data)"

definition parse_complete_gold_data :: "(nat \<Rightarrow> pystr) \<Rightarrow> pystr \<Rightarrow> category_id \<Rightarrow> error + gold_record list" where
  "parse_complete_gold_data now html_text gold_type =
     (case get_config gold_type of
        Inl e \<Rightarrow> Inl e
      | Inr cfg \<Rightarrow>
          let matches1 = findall pattern html_text;
              matches2 = findall pattern2 html_text;
              all_matches = merge_loop (matches1 @ matches2) {} []
          in build_loop cfg gold_type now all_matches [])"

section \<open>Aggregation\<close>

text \<open>Sequencing of steps that can raise.\<close>

definition and_then :: "error + 'a \<Rightarrow> ('a \<Rightarrow> error + 'b) \<Rightarrow> error + 'b" where
  "and_then r f = (case r of Inl e \<Rightarrow> Inl e | Inr v \<Rightarrow> f v)"

text \<open>
  \<open>Counter(xs)\<close>: a dictionary from each element to the number of its occurrences,
  in the order of first occurrence; \<open>most_common\<close> sorts the items by decreasing
  count and keeps the order of items with equal counts.
\<close>

fun counter_add :: "'a \<Rightarrow> ('a \<times> nat) list \<Rightarrow> ('a \<times> nat) list" where
  "counter_add k [] = [(k, 1)]"
| "counter_add k ((k', n) # d) =
     (if k = k' then (k', Suc n) # d else (k', n) # counter_add k d)"

definition Counter :: "'a list \<Rightarrow> ('a \<times> nat) list" where
  "Counter xs = foldl (\<lambda>d k. counter_add k d) [] xs"

definition most_common :: "('a \<times> nat) list \<Rightarrow> ('a \<times> nat) list" where
  "most_common d = sort_key (\<lambda>(k, n). - int n) d"

text \<open>
  \<open>max\<close> and \<open>min\<close> of a list (the first greatest or least element; a
  \<open>ValueError\<close> on the empty list), indexing, and true division by an integer.
\<close>

definition py_max :: "'a::linorder list \<Rightarrow> error + 'a" where
  "py_max xs = (case xs of [] \<Rightarrow> Inl ValueError
                | x # r \<Rightarrow> Inr (foldl (\<lambda>m y. if m < y then y else m) x r))"

definition py_min :: "'a::linorder list \<Rightarrow> error + 'a" where
  "py_min xs = (case xs of [] \<Rightarrow> Inl ValueError
                | x # r \<Rightarrow> Inr (foldl (\<lambda>m y. if y < m then y else m) x r))"

definition py_index :: "'a list \<Rightarrow> nat \<Rightarrow> error + 'a" where
  "py_index xs i = (if i < length xs then Inr (xs ! i) else Inl IndexError)"

definition truediv :: "rat \<Rightarrow> nat \<Rightarrow> error + rat" where
  "truediv x n = (if n = 0 then Inl ZeroDivisionError else Inr (binary64 (x / of_nat n)))"

text \<open>
  \<open>sum(prices)\<close> is the exact sum: the rounding of the partial sums is not
  modelled (the summation algorithm of \<open>sum\<close> differs between Python versions).
\<close>

definition float_sum :: "rat list \<Rightarrow> rat" where
  "float_sum xs = sum_list xs"

text \<open>
  \<open>str(n)\<close> for a natural number, and the format \<open>.1f\<close>: the exact value of the
  float rounded to one decimal, ties to even.
\<close>

function digits_of :: "nat \<Rightarrow> pystr" where
  "digits_of n = (if n < 10 then [48 + n] else digits_of (n div 10) @ [48 + n mod 10])"
  by pat_completeness auto
termination
  by (relation "measure id") auto

declare digits_of.simps [simp del]

definition format_1f :: "rat \<Rightarrow> pystr" where
  "format_1f x =
     (let t = round_half_even (\<bar>x\<bar> * 10);
          body = digits_of (nat (t div 10)) @ [46] @ [48 + nat (t mod 10)]
      in if x < 0 then 45 # body else body)"

text \<open>\<open>f"{(v/total_records*100):.1f}%"\<close>\<close>

definition percent :: "nat \<Rightarrow> nat \<Rightarrow> error + pystr" where
  "percent v total_records =
     and_then (truediv (of_nat v) total_records)
       (\<lambda>q. Inr (format_1f (binary64 (q * 100)) @ [37]))"

fun ratio_items :: "('a \<times> nat) list \<Rightarrow> nat \<Rightarrow> error + ('a \<times> pystr) list" where
  "ratio_items [] total_records = Inr []"
| "ratio_items ((k, v) # d) total_records =
     and_then (percent v total_records)
       (\<lambda>s. and_then (ratio_items d total_records) (\<lambda>r. Inr ((k, s) # r)))"

text \<open>
  The report is a dictionary of six sections with fixed keys, or the empty dictionary;
  the price section is a dictionary of five entries or the empty dictionary.
\<close>

datatype 'a or_empty = EmptyDict | Dict 'a

record overview =
  total_records :: nat
  date_range :: pystr
  brand_number :: nat
  product_number :: nat
  valid_price_number :: nat

record price_stats =
  highest :: rat
  lowest :: rat
  average :: rat
  median :: rat
  price_number :: nat

record report =
  data_overview :: overview
  brand_statistics :: "(pystr \<times> nat) list"
  main_brands :: "(pystr \<times> nat) list"
  product_statistics :: "(pystr \<times> nat) list"
  hot_products :: "(pystr \<times> nat) list"
  price_analysis :: "price_stats or_empty"
  trend_statistics :: "(pystr \<times> nat) list"
  trend_ratio :: "(pystr \<times> pystr) list"
  date_statistics :: "(pystr \<times> nat) list"
  date_number :: nat

text \<open>The entries of the price section, evaluated in the order of the source.\<close>

definition price_section :: "rat list \<Rightarrow> error + price_stats or_empty" where
  "price_section prices =
     (if prices \<noteq> []
      then and_then (py_max prices) (\<lambda>hi.
           and_then (py_min prices) (\<lambda>lo.
           and_then (truediv (float_sum prices) (length prices)) (\<lambda>av.
           and_then (py_index (sort prices) (length prices div 2)) (\<lambda>md.
           Inr (Dict \<lparr>highest = hi, lowest = lo, average = av, median = md,
                      price_number = length prices\<rparr>)))))
      else Inr EmptyDict)"

text \<open>\<open>f"{min(dates)} ... {max(dates)}" if dates else ...\<close>, with the Chinese words
  for "to" and "no data".\<close>

definition range_text :: "pystr list \<Rightarrow> error + pystr" where
  "range_text dates =
     (if dates \<noteq> []
      then and_then (py_min dates) (\<lambda>lo.
           and_then (py_max dates) (\<lambda>hi. Inr (lo @ [32, 33267, 32] @ hi)))
      else Inr [26080, 25968, 25454])"

definition analyze_gold_data :: "gold_record list \<Rightarrow> error + report or_empty" where
  "analyze_gold_data gold_data =
     (if gold_data = [] then Inr EmptyDict
      else
        let total = length gold_data;
            brand_counts = Counter (map brand gold_data);
            product_counts = Counter (map product gold_data);
            prices = List.map_filter price_value gold_data
        in and_then (price_section prices) (\<lambda>price_sec.
           let trend_counts = Counter (map trend gold_data);
               dates = map date gold_data;
               date_counts = Counter dates
           in and_then (range_text dates) (\<lambda>range.
              and_then (ratio_items trend_counts total) (\<lambda>ratios.
              Inr (Dict
                \<lparr>data_overview =
                   \<lparr>total_records = total, date_range = range,
                    brand_number = length brand_counts,
                    product_number = length product_counts,
                    valid_price_number = length prices\<rparr>,
                 brand_statistics = most_common brand_counts,
                 main_brands = take 10 (most_common brand_counts),
                 product_statistics = most_common product_counts,
                 hot_products = take 10 (most_common product_counts),
                 price_analysis = price_sec,
                 trend_statistics = trend_counts,
                 trend_ratio = ratios,
                 date_statistics = most_common date_counts,
                 date_number = length date_counts\<rparr>)))))"

section \<open>The price token of the specification\<close>

text \<open>
  Written from the specification, to be compared with the search for
  \<open>price_pattern\<close>: the first run of digits of a text, together with a decimal point
  that follows the run directly and the digits after that point.
\<close>

definition first_number :: "pystr \<Rightarrow> pystr option" where
  "first_number s =
     (let r = dropWhile (\<lambda>c. \<not> is_decimal c) s
      in if r = [] then None
         else Some (takeWhile is_decimal r @
                (case dropWhile is_decimal r of
                   [] \<Rightarrow> []
                 | c # t \<Rightarrow> if c = 46 then 46 # takeWhile is_decimal t else [])))"

section \<open>Well-formed pages\<close>

text \<open>
  Written from the specification, to state what extraction does on a page of
  well-formed rows. A cell is \<open><td ...>content</td>\<close> (bare) or
  \<open><td ...><div ...>content</div></td>\<close> (wrapped), followed by white space; the
  attributes hold neither \<open><\<close> nor \<open>>\<close> and the content holds no \<open><\<close>. A row
  is eight cells of one shape. A page is rows with other text around them in which
  no cell starts.
\<close>

datatype shape = Bare | Wrapped

record cell =
  td_attrs :: pystr
  div_attrs :: pystr
  content :: pystr
  trailing :: pystr

fun cell_core :: "shape \<Rightarrow> cell \<Rightarrow> pystr" where
  "cell_core Bare c = py ''<td'' @ td_attrs c @ py ''>'' @ content c @ py ''</td>''"
| "cell_core Wrapped c = py ''<td'' @ td_attrs c @ py ''>'' @ py ''<div'' @ div_attrs c
     @ py ''>'' @ content c @ py ''</div></td>''"

definition render_cell :: "shape \<Rightarrow> cell \<Rightarrow> pystr" where
  "render_cell sh c = cell_core sh c @ trailing c"

definition well_formed_cell :: "cell \<Rightarrow> bool" where
  "well_formed_cell c =
     (60 \<notin> set (td_attrs c) \<and> 62 \<notin> set (td_attrs c)
      \<and> 60 \<notin> set (div_attrs c) \<and> 62 \<notin> set (div_attrs c)
      \<and> 60 \<notin> set (content c) \<and> list_all is_space (trailing c))"

type_synonym row = "shape \<times> cell list"

definition render_row :: "row \<Rightarrow> pystr" where
  "render_row r = concat (map (render_cell (fst r)) (snd r))"

definition well_formed_row :: "row \<Rightarrow> bool" where
  "well_formed_row r = (length (snd r) = 8 \<and> list_all well_formed_cell (snd r))"

definition row_contents :: "row \<Rightarrow> raw_match" where
  "row_contents r = map content (snd r)"

text \<open>
  Text in which no cell starts: it has no \<open><td\<close> and does not end in \<open><\<close> or
  \<open><t\<close>.
\<close>

fun inert :: "pystr \<Rightarrow> bool" where
  "inert (x # y # z # r) = (\<not> (x = 60 \<and> y = 116 \<and> z = 100) \<and> inert (y # z # r))"
| "inert [x, y] = (\<not> (x = 60 \<and> y = 116) \<and> y \<noteq> 60)"
| "inert [x] = (x \<noteq> 60)"
| "inert [] = True"

text \<open>A page: text, then every row followed by text.\<close>

definition render_page :: "pystr \<Rightarrow> (row \<times> pystr) list \<Rightarrow> pystr" where
  "render_page lead rows = lead @ concat (map (\<lambda>(r, rest). render_row r @ rest) rows)"

text \<open>A row is valid when its five required fields are non-empty after trimming.\<close>

definition valid_row :: "row \<Rightarrow> bool" where
  "valid_row r = (\<forall>i < 5. strip (row_contents r ! i) \<noteq> [])"

text \<open>A cell without attributes and without white space after it.\<close>

definition plain :: "pystr \<Rightarrow> cell" where
  "plain f = \<lparr>td_attrs = [], div_attrs = [], content = f, trailing = []\<rparr>"

section \<open>Example data\<close>

text \<open>
  The row of the specification's example: 2025-09-17, the brand Chow Tai Fook, the
  product "pure gold", 823.00, yuan per gram, 999, none, rise; the date is followed
  by a blank here. The second row has a price text without a digit ("negotiable").
\<close>

definition example_row :: raw_match where
  "example_row = [py ''2025-09-17 '', [21608, 22823, 31119], [36275, 37329], py ''823.00'',
     [20803, 47, 20811], py ''999'', [26080], [28072]]"

definition example_row_no_price :: raw_match where
  "example_row_no_price = [py ''2025-09-17'', [21608, 22823, 31119], [36275, 37329],
     [38754, 35758], [20803, 47, 20811], py ''999'', [26080], [28072]]"

text \<open>
  A page of two rows: the first is wrapped and holds the row without a price, the
  second is bare and holds the example row. A second page has the example row twice,
  bare, the second time with another purity.
\<close>

definition example_rows :: "(row \<times> pystr) list" where
  "example_rows = [((Wrapped, map plain example_row_no_price), py ''</tr><tr>''),
                   ((Bare, map plain example_row), py ''</tr>'')]"


text \<open>A record as normalization builds it, with a given trend and price value.\<close>

definition example_record :: "pystr \<Rightarrow> rat option \<Rightarrow> gold_record" where
  "example_record t v =
     \<lparr>date = py ''2025-09-17'', brand = [21608, 22823, 31119], product = [36275, 37329],
      price = py ''823.00'', price_value = v, unit = [20803, 47, 20811],
      purity = py ''999'', craft_fee = [26080], trend = t,
      gold_type_name = [39318, 39280, 40644, 37329], gold_type_code = py ''jewelry'',
      data_source = [26032, 28010, 36130, 32463], parsed_at = py ''2025-09-17T10:00:00''\<rparr>"

section \<open>Evaluating numbers\<close>

lemma floor_rat_numeral_div [simp]:
  "\<lfloor>numeral a / numeral b :: rat\<rfloor> = numeral a div numeral b"
  by (metis floor_divide_of_int_eq of_int_numeral)

lemma ceiling_rat_numeral_div [simp]:
  "\<lceil>numeral a / numeral b :: rat\<rceil> = - (- numeral a div numeral b)"
  by (metis ceiling_def floor_divide_of_int_eq minus_divide_left of_int_minus of_int_numeral)

lemmas float_defs = binary64_def ilog2_def pow2_def round_half_even_def Let_def
  bit_length.simps digits_of.simps

lemma binary64_half: "binary64 (1 / 2) = 1 / 2"
  by (simp add: float_defs)

lemma binary64_quarter: "binary64 (1 / 4) = 1 / 4"
  by (simp add: float_defs)

lemma binary64_50: "binary64 50 = 50"
  by (simp add: float_defs)

lemma binary64_25: "binary64 25 = 25"
  by (simp add: float_defs)


lemma format_1f_50: "format_1f 50 = py ''50.0''"
  by (simp add: format_1f_def py_def float_defs)

lemma format_1f_25: "format_1f 25 = py ''25.0''"
  by (simp add: format_1f_def py_def float_defs)

lemma percent_2_4: "percent (Suc (Suc 0)) 4 = Inr (py ''50.0%'')"
  by (simp add: percent_def and_then_def truediv_def binary64_half binary64_50 format_1f_50 py_def)

lemma percent_1_4: "percent (Suc 0) 4 = Inr (py ''25.0%'')"
  by (simp add: percent_def and_then_def truediv_def binary64_quarter binary64_25 format_1f_25 py_def)

section \<open>The category registry: results\<close>

text \<open>
  Claim C1, as amended. The lookup never fails: a registered category gets its own
  configuration, and an identifier outside the registry gets the configuration of
  \<open>JEWELRY\<close>, the default of the \<open>get\<close>.
\<close>

theorem get_config_registered_or_default:
  "(\<exists>c. map_of GOLD_CONFIGS (Member g) = Some c \<and> get_config (Member g) = Inr c)
   \<and> get_config (Foreign s) = get_config (Member JEWELRY)"
  by (cases g) (simp_all add: get_config_def subscript_def dict_get_def GOLD_CONFIGS_def)

text \<open>The theorem at the category \<open>PHYSICAL\<close> and the identifier \<open>silver\<close>.\<close>

theorem get_config_registered_or_default_witness:
  "(\<exists>c. map_of GOLD_CONFIGS (Member PHYSICAL) = Some c \<and> get_config (Member PHYSICAL) = Inr c)
   \<and> get_config (Foreign (py ''silver'')) = get_config (Member JEWELRY)"
  by (rule get_config_registered_or_default)

text \<open>
  Claim C1 as stated fails: the identifier \<open>silver\<close> is not a key of the registry,
  and its lookup is not an error but the configuration of \<open>JEWELRY\<close>.
\<close>

theorem get_config_foreign_is_no_error:
  "map_of GOLD_CONFIGS (Foreign (py ''silver'')) = None
   \<and> \<not> isl (get_config (Foreign (py ''silver'')))
   \<and> get_config (Foreign (py ''silver'')) = get_config (Member JEWELRY)"
  by (simp add: get_config_def subscript_def dict_get_def GOLD_CONFIGS_def)

section \<open>Aggregation: results\<close>

lemma and_then_Inr [simp]: "and_then (Inr v) f = f v"
  by (simp add: and_then_def)

lemma and_then_Inl [simp]: "and_then (Inl e) f = Inl e"
  by (simp add: and_then_def)

lemma py_max_Cons: "py_max (x # xs) = Inr (Max (set (x # xs)))"
proof -
  have "(\<lambda>m y. if m < y then y else m) = (\<lambda>m y::'a. max y m)"
    by (auto simp: max_def fun_eq_iff)
  then have "foldl (\<lambda>m y. if m < y then y else m) x xs = fold max xs x"
    by (simp add: foldl_conv_fold)
  then show ?thesis by (simp add: py_max_def Max.set_eq_fold del: set_simps)
qed

lemma py_min_Cons: "py_min (x # xs) = Inr (Min (set (x # xs)))"
proof -
  have "(\<lambda>m y. if y < m then y else m) = (\<lambda>m y::'a. min y m)"
    by (auto simp: min_def fun_eq_iff)
  then have "foldl (\<lambda>m y. if y < m then y else m) x xs = fold min xs x"
    by (simp add: foldl_conv_fold)
  then show ?thesis by (simp add: py_min_def Min.set_eq_fold del: set_simps)
qed

lemma percent_ok: "0 < n \<Longrightarrow> percent v n = Inr (projr (percent v n))"
  by (simp add: percent_def truediv_def)

lemma ratio_items_ok:
  "0 < n \<Longrightarrow> ratio_items d n = Inr (map (\<lambda>(k, v). (k, projr (percent v n))) d)"
proof (induction d)
  case Nil
  show ?case by simp
next
  case (Cons kv d)
  obtain k v where kv: "kv = (k, v)" by (cases kv)
  from Cons.prems obtain s where "percent v n = Inr s"
    by (simp add: percent_def truediv_def)
  then show ?case using Cons by (simp add: kv)
qed

lemma map_of_counter_add:
  "map_of (counter_add k d) k' =
     (if k' = k then Some (case map_of d k of None \<Rightarrow> 1 | Some n \<Rightarrow> Suc n)
      else map_of d k')"
  by (induction d) auto

lemma map_of_Counter_foldl:
  "map_of (foldl (\<lambda>d k. counter_add k d) d xs) k =
     (case map_of d k of
        None \<Rightarrow> if k \<in> set xs then Some (count_list xs k) else None
      | Some n \<Rightarrow> Some (n + count_list xs k))"
proof (induction xs arbitrary: d)
  case Nil
  show ?case by (simp split: option.split)
next
  case (Cons x xs)
  show ?case
    by (auto simp: Cons map_of_counter_add count_list_0_iff split: option.split)
qed

lemma map_of_Counter:
  "map_of (Counter xs) k = (if k \<in> set xs then Some (count_list xs k) else None)"
  by (simp add: Counter_def map_of_Counter_foldl)

lemma price_section_ok:
  "prices \<noteq> [] \<Longrightarrow>
   price_section prices =
     Inr (Dict \<lparr>highest = Max (set prices), lowest = Min (set prices),
                average = binary64 (sum_list prices / of_nat (length prices)),
                median = sort prices ! (length prices div 2),
                price_number = length prices\<rparr>)"
  by (cases prices)
     (simp_all add: price_section_def py_max_Cons py_min_Cons truediv_def float_sum_def
        py_index_def del: set_simps)

lemma price_section_total: "\<exists>sec. price_section prices = Inr sec"
  by (cases "prices = []") (simp_all add: price_section_ok, simp add: price_section_def)

lemma range_text_total: "\<exists>t. range_text dates = Inr t"
  by (cases dates) (simp_all add: range_text_def py_max_Cons py_min_Cons del: set_simps)

lemma analyze_nonempty:
  assumes "gold_data \<noteq> []"
  shows "\<exists>rep. analyze_gold_data gold_data = Inr (Dict rep)
     \<and> total_records (data_overview rep) = length gold_data
     \<and> price_analysis rep = projr (price_section (List.map_filter price_value gold_data))
     \<and> trend_statistics rep = Counter (map trend gold_data)
     \<and> trend_ratio rep = map (\<lambda>(k, v). (k, projr (percent v (length gold_data))))
           (Counter (map trend gold_data))"
proof -
  obtain sec where sec: "price_section (List.map_filter price_value gold_data) = Inr sec"
    using price_section_total by blast
  obtain t where t: "range_text (map date gold_data) = Inr t"
    using range_text_total by blast
  from assms have n: "0 < length gold_data" by simp
  show ?thesis
    using assms by (simp add: analyze_gold_data_def Let_def sec t ratio_items_ok [OF n])
qed


text \<open>
  Claim C2, as amended. Aggregation of the empty collection does not raise and
  returns the empty dictionary, which has no section at all; the empty dictionary is
  returned for the empty collection only.
\<close>

theorem analyze_empty_iff:
  "(analyze_gold_data gold_data = Inr EmptyDict) = (gold_data = [])"
proof (cases "gold_data = []")
  case True
  then show ?thesis by (simp add: analyze_gold_data_def)
next
  case False
  then show ?thesis using analyze_nonempty [OF False] by auto
qed

text \<open>The theorem at the empty collection and at a collection of one record.\<close>

theorem analyze_empty_iff_witness:
  "analyze_gold_data [] = Inr EmptyDict
   \<and> analyze_gold_data [example_record [28072] None] \<noteq> Inr EmptyDict"
  using analyze_empty_iff [of "[]"] analyze_empty_iff [of "[example_record [28072] None]"]
  by simp

text \<open>
  Claim C2 as stated fails: the result for the empty collection is the empty
  dictionary, not a report with an overview whose record count is 0.
\<close>

theorem analyze_empty_is_structureless:
  "analyze_gold_data [] = Inr EmptyDict"
  by (simp add: analyze_gold_data_def)



text \<open>
  Claim C8. For a non-empty collection, the trend statistics count every trend value
  that occurs, and the ratio of a trend is \<open>percent\<close> of its count and of the number
  of all records: the count divided by the total, times 100, with one decimal and a
  percent sign. Four records with the trends rise, rise, fall and flat (the Chinese
  characters 28072, 36300 and 24179) give 50.0%, 25.0% and 25.0%.
\<close>

theorem trend_distribution:
  assumes "gold_data \<noteq> []"
  shows "\<exists>rep. analyze_gold_data gold_data = Inr (Dict rep)
     \<and> (\<forall>t. map_of (trend_statistics rep) t =
            (if t \<in> set (map trend gold_data)
             then Some (count_list (map trend gold_data) t) else None))
     \<and> (\<forall>t s. (map_of (trend_ratio rep) t = Some s) =
            (t \<in> set (map trend gold_data)
             \<and> percent (count_list (map trend gold_data) t) (length gold_data) = Inr s))
     \<and> (map trend gold_data = [[28072], [28072], [36300], [24179]] \<longrightarrow>
          trend_ratio rep =
            [([28072], py ''50.0%''), ([36300], py ''25.0%''), ([24179], py ''25.0%'')])"
proof -
  from analyze_nonempty [OF assms] obtain rep where
    rep: "analyze_gold_data gold_data = Inr (Dict rep)"
    and st: "trend_statistics rep = Counter (map trend gold_data)"
    and ra: "trend_ratio rep = map (\<lambda>(k, v). (k, projr (percent v (length gold_data))))
           (Counter (map trend gold_data))"
    by blast
  from assms have n: "0 < length gold_data" by simp
  have a: "map_of (trend_statistics rep) t =
            (if t \<in> set (map trend gold_data)
             then Some (count_list (map trend gold_data) t) else None)" for t
    by (simp only: st map_of_Counter)
  have b: "(map_of (trend_ratio rep) t = Some s) =
            (t \<in> set (map trend gold_data)
             \<and> percent (count_list (map trend gold_data) t) (length gold_data) = Inr s)"
    for t s
    using percent_ok [OF n, of "count_list (map trend gold_data) t"]
    by (auto simp: ra map_of_map map_of_Counter)
  have c: "trend_ratio rep =
            [([28072], py ''50.0%''), ([36300], py ''25.0%''), ([24179], py ''25.0%'')]"
    if "map trend gold_data = [[28072], [28072], [36300], [24179]]"
  proof -
    from that have "length (map trend gold_data) = 4" by simp
    then have "length gold_data = 4" by simp
    then show ?thesis
      by (simp add: ra that Counter_def percent_2_4 percent_1_4)
  qed
  show ?thesis using rep a b c by blast
qed

text \<open>The theorem at four records with the trends rise, rise, fall and flat.\<close>

theorem trend_distribution_witness:
  "\<exists>rep. analyze_gold_data
       [example_record [28072] None, example_record [28072] None,
        example_record [36300] None, example_record [24179] None] = Inr (Dict rep)
     \<and> map_of (trend_statistics rep) [28072] = Some 2
     \<and> map_of (trend_ratio rep) [28072] = Some (py ''50.0%'')
     \<and> trend_ratio rep =
          [([28072], py ''50.0%''), ([36300], py ''25.0%''), ([24179], py ''25.0%'')]"
proof -
  let ?d = "[example_record [28072] None, example_record [28072] None,
        example_record [36300] None, example_record [24179] None]"
  have ne: "?d \<noteq> []" by simp
  have tr: "map trend ?d = [[28072], [28072], [36300], [24179]]"
    by (simp add: example_record_def)
  from trend_distribution [OF ne] obtain rep where
    rep: "analyze_gold_data ?d = Inr (Dict rep)"
    and a: "\<forall>t. map_of (trend_statistics rep) t =
            (if t \<in> set (map trend ?d) then Some (count_list (map trend ?d) t) else None)"
    and c: "map trend ?d = [[28072], [28072], [36300], [24179]] \<longrightarrow>
          trend_ratio rep =
            [([28072], py ''50.0%''), ([36300], py ''25.0%''), ([24179], py ''25.0%'')]"
    by blast
  from c tr have c': "trend_ratio rep =
            [([28072], py ''50.0%''), ([36300], py ''25.0%''), ([24179], py ''25.0%'')]"
    by blast
  have "map_of (trend_statistics rep) [28072] = Some 2"
    using a [rule_format, of "[28072]"] unfolding tr by simp
  then show ?thesis using rep c' by simp
qed

section \<open>Price extraction: results\<close>

text \<open>
  The search for \<open>price_pattern\<close> never backtracks into a shorter match: whatever
  follows a run of digits, the rest of the pattern matches.
\<close>

lemma star_digits_close:
  "rmatch [Star Digit, Close] t caps (Some g) =
     Some (caps @ [g @ takeWhile is_decimal t], dropWhile is_decimal t)"
  by (induction t arbitrary: g) simp_all

lemma opt_dot_digits_close:
  "rmatch [Opt (Lit 46), Star Digit, Close] s caps (Some g) =
     (case s of
        [] \<Rightarrow> Some (caps @ [g], [])
      | c # t \<Rightarrow>
          if c = 46
          then Some (caps @ [g @ 46 # takeWhile is_decimal t], dropWhile is_decimal t)
          else Some (caps @ [g @ takeWhile is_decimal (c # t)], dropWhile is_decimal (c # t)))"
  by (cases s) (simp_all add: star_digits_close)

lemma opt_dot_digits_close_Some:
  "\<exists>res. rmatch [Opt (Lit 46), Star Digit, Close] s caps (Some g) = Some res"
  by (simp add: opt_dot_digits_close split: list.split)

lemma star_digits_opt:
  "rmatch [Star Digit, Opt (Lit 46), Star Digit, Close] s caps (Some g) =
     rmatch [Opt (Lit 46), Star Digit, Close] (dropWhile is_decimal s) caps
       (Some (g @ takeWhile is_decimal s))"
proof (induction s arbitrary: g)
  case Nil
  show ?case by simp
next
  case (Cons x s)
  show ?case
  proof (cases "is_decimal x")
    case True
    obtain res where "rmatch [Opt (Lit 46), Star Digit, Close] (dropWhile is_decimal s) caps
       (Some ((g @ [x]) @ takeWhile is_decimal s)) = Some res"
      using opt_dot_digits_close_Some by blast
    then show ?thesis using True Cons [of "g @ [x]"] by simp
  next
    case False
    then show ?thesis by simp
  qed
qed

lemma price_token:
  "rmatch [Star Digit, Opt (Lit 46), Star Digit, Close] s caps (Some g) =
     Some (caps @ [g @ takeWhile is_decimal s @
             (case dropWhile is_decimal s of
                [] \<Rightarrow> []
              | c # t \<Rightarrow> if c = 46 then 46 # takeWhile is_decimal t else [])],
           (case dropWhile is_decimal s of
                [] \<Rightarrow> []
              | c # t \<Rightarrow> if c = 46 then dropWhile is_decimal t else c # t))"
proof (cases "dropWhile is_decimal s")
  case Nil
  show ?thesis unfolding star_digits_opt opt_dot_digits_close Nil by simp
next
  case (Cons c t)
  then have "\<not> is_decimal c"
    using hd_dropWhile [of is_decimal s] by auto
  then show ?thesis unfolding star_digits_opt opt_dot_digits_close Cons by simp
qed

lemma price_pattern_at:
  "rmatch price_pattern (x # s) [] None =
     (if is_decimal x
      then Some ([x # takeWhile is_decimal s @
             (case dropWhile is_decimal s of
                [] \<Rightarrow> []
              | c # t \<Rightarrow> if c = 46 then 46 # takeWhile is_decimal t else [])],
           (case dropWhile is_decimal s of
                [] \<Rightarrow> []
              | c # t \<Rightarrow> if c = 46 then dropWhile is_decimal t else c # t))
      else None)"
  by (simp add: price_pattern_def price_token)

text \<open>The search finds the price token of the specification.\<close>

lemma search_price_pattern:
  "search price_pattern s = map_option (\<lambda>t. [t]) (first_number s)"
proof (induction s)
  case Nil
  show ?case by (simp add: first_number_def price_pattern_def)
next
  case (Cons x s)
  show ?case
  proof (cases "is_decimal x")
    case True
    then show ?thesis by (simp add: price_pattern_at first_number_def)
  next
    case False
    then show ?thesis using Cons by (simp add: price_pattern_at first_number_def)
  qed
qed


lemma first_number_None: "(first_number s = None) = (\<forall>c\<in>set s. \<not> is_decimal c)"
  by (auto simp: first_number_def Let_def dropWhile_eq_Nil_conv)

lemma extract_price_first_number:
  "extract_price p =
     (case first_number p of
        None \<Rightarrow> Inr None
      | Some t \<Rightarrow> (case py_float t of Inl e \<Rightarrow> Inl e | Inr v \<Rightarrow> Inr (Some v)))"
  by (simp add: extract_price_def search_price_pattern split: option.split)

lemma not_decimal_dot: "\<not> is_decimal 46"
  by (simp add: is_decimal_def decimal_zero_of_def decimal_zeros_def)

lemma round_half_even_nonneg: "0 \<le> q \<Longrightarrow> 0 \<le> round_half_even q"
  by (simp add: round_half_even_def Let_def)

lemma pow2_pos: "0 < pow2 e"
  by (simp add: pow2_def)

lemma binary64_nonneg: "0 \<le> q \<Longrightarrow> 0 \<le> binary64 q"
  using round_half_even_nonneg [of "\<bar>q\<bar> / pow2 (ilog2 \<bar>q\<bar> - 52)"] pow2_pos [of "ilog2 \<bar>q\<bar> - 52"]
  by (simp add: binary64_def Let_def sgn_if)

lemma py_float_digits:
  assumes "ip \<noteq> []" "list_all is_decimal ip"
  shows "py_float ip = Inr (binary64 (of_nat (digits_value ip)))"
proof -
  from assms(2) have tw: "takeWhile is_decimal ip = ip" and dw: "dropWhile is_decimal ip = []"
    by (simp_all add: list_all_iff)
  show ?thesis unfolding py_float_def Let_def tw dw using assms(1) by simp
qed

lemma py_float_digits_dot:
  assumes "ip \<noteq> []" "list_all is_decimal ip" "list_all is_decimal fp"
  shows "py_float (ip @ 46 # fp) =
     Inr (binary64 (of_nat (digits_value ip) + of_nat (digits_value fp) / 10 ^ length fp))"
proof -
  from assms(2) have tw: "takeWhile is_decimal (ip @ 46 # fp) = ip"
    and dw: "dropWhile is_decimal (ip @ 46 # fp) = 46 # fp"
    by (simp_all add: list_all_iff takeWhile_append2 dropWhile_append2 not_decimal_dot)
  show ?thesis unfolding py_float_def Let_def tw dw using assms(1,3) by simp
qed

lemma first_number_float:
  assumes "first_number s = Some t"
  shows "\<exists>v. py_float t = Inr v \<and> 0 \<le> v"
proof -
  define r where "r = dropWhile (\<lambda>c. \<not> is_decimal c) s"
  define ip where "ip = takeWhile is_decimal r"
  from assms have r: "r \<noteq> []"
    by (auto simp: first_number_def Let_def r_def split: if_splits)
  then have "is_decimal (hd r)"
    using hd_dropWhile [of "\<lambda>c. \<not> is_decimal c" s] by (simp add: r_def)
  with r have ip: "ip \<noteq> []" by (cases r) (simp_all add: ip_def)
  have all: "list_all is_decimal ip"
    by (auto simp: ip_def list_all_iff dest: set_takeWhileD)
  have t: "t = ip @ (case dropWhile is_decimal r of
                   [] \<Rightarrow> []
                 | c # u \<Rightarrow> if c = 46 then 46 # takeWhile is_decimal u else [])"
    using assms r by (auto simp: first_number_def Let_def r_def ip_def split: if_splits)
  show ?thesis
  proof (cases "\<exists>u. dropWhile is_decimal r = 46 # u")
    case True
    then obtain u where u: "dropWhile is_decimal r = 46 # u" by blast
    have "list_all is_decimal (takeWhile is_decimal u)"
      by (auto simp: list_all_iff dest: set_takeWhileD)
    then show ?thesis
      using py_float_digits_dot [OF ip all, of "takeWhile is_decimal u"]
      by (simp add: t u binary64_nonneg)
  next
    case False
    then have "t = ip" by (auto simp: t split: list.split)
    then show ?thesis using py_float_digits [OF ip all] by (simp add: binary64_nonneg)
  qed
qed

lemma extract_price_total:
  "\<exists>pv. extract_price p = Inr pv
     \<and> (pv = None) = (first_number p = None)
     \<and> (\<forall>t. first_number p = Some t \<longrightarrow> (\<exists>v. py_float t = Inr v \<and> pv = Some v \<and> 0 \<le> v))"
proof (cases "first_number p")
  case None
  then show ?thesis by (simp add: extract_price_first_number)
next
  case (Some t)
  from first_number_float [OF Some] obtain v where "py_float t = Inr v" "0 \<le> v" by blast
  then show ?thesis by (simp add: extract_price_first_number Some)
qed


lemmas text_defs = py_def is_space_def strip_def is_decimal_def decimal_zero_of_def
  decimal_zeros_def

lemma binary64_823: "binary64 823 = 823"
  by (simp add: float_defs)

lemma extract_price_example: "extract_price (py ''823.00'') = Inr (Some 823)"
proof -
  have "first_number (py ''823.00'') = Some (py ''823.00'')"
    by (simp add: first_number_def text_defs)
  moreover have "py_float (py ''823.00'') = Inr 823"
    by (simp add: py_float_def digits_value_def digit_value_def text_defs binary64_823)
  ultimately show ?thesis by (simp add: extract_price_first_number)
qed

lemma extract_price_no_digit: "extract_price [38754, 35758] = Inr None"
proof -
  have "first_number [38754, 35758] = None"
    by (simp add: first_number_def text_defs)
  then show ?thesis by (simp add: extract_price_first_number)
qed

lemma strip_example:
  "strip (py ''2025-09-17 '') = py ''2025-09-17''"
  "strip (py ''2025-09-17'') = py ''2025-09-17''"
  "strip [21608, 22823, 31119] = [21608, 22823, 31119]"
  "strip [36275, 37329] = [36275, 37329]"
  "strip (py ''823.00'') = py ''823.00''"
  "strip [38754, 35758] = [38754, 35758]"
  "strip [20803, 47, 20811] = [20803, 47, 20811]"
  "strip (py ''999'') = py ''999''"
  "strip [26080] = [26080]"
  "strip [28072] = [28072]"
  by (simp_all add: py_def is_space_def strip_def)

lemma normalize_example_row:
  "normalize_row cfg (Member JEWELRY) stamp example_row =
     Inr (Some \<lparr>date = py ''2025-09-17'', brand = [21608, 22823, 31119],
                product = [36275, 37329], price = py ''823.00'', price_value = Some 823,
                unit = [20803, 47, 20811], purity = py ''999'', craft_fee = [26080],
                trend = [28072], gold_type_name = name cfg,
                gold_type_code = py ''jewelry'',
                data_source = [26032, 28010, 36130, 32463], parsed_at = stamp\<rparr>)"
  by (simp add: normalize_row_def Let_def example_row_def strip_example extract_price_example)
     (simp add: py_def)

lemma normalize_example_row_no_price:
  "normalize_row cfg (Member JEWELRY) stamp example_row_no_price =
     Inr (Some \<lparr>date = py ''2025-09-17'', brand = [21608, 22823, 31119],
                product = [36275, 37329], price = [38754, 35758], price_value = None,
                unit = [20803, 47, 20811], purity = py ''999'', craft_fee = [26080],
                trend = [28072], gold_type_name = name cfg,
                gold_type_code = py ''jewelry'',
                data_source = [26032, 28010, 36130, 32463], parsed_at = stamp\<rparr>)"
  by (simp add: normalize_row_def Let_def example_row_no_price_def strip_example extract_price_no_digit)
     (simp add: py_def)

section \<open>Normalization: results\<close>

lemma normalize_row_Some_fields:
  assumes "normalize_row cfg gold_type stamp m = Inr (Some r)"
  shows "date r = strip (m ! 0) \<and> brand r = strip (m ! 1) \<and> product r = strip (m ! 2)
     \<and> price r = strip (m ! 3) \<and> unit r = strip (m ! 4) \<and> purity r = strip (m ! 5)
     \<and> craft_fee r = strip (m ! 6) \<and> trend r = strip (m ! 7)
     \<and> date r \<noteq> [] \<and> brand r \<noteq> [] \<and> product r \<noteq> [] \<and> price r \<noteq> [] \<and> unit r \<noteq> []
     \<and> extract_price (price r) = Inr (price_value r)"
  using assms
  by (auto simp: normalize_row_def Let_def split: if_splits sum.splits)

lemma extract_price_Inr: "\<exists>pv. extract_price p = Inr pv"
proof -
  from extract_price_total [of p] obtain pv where "extract_price p = Inr pv"
    by (elim exE conjE)
  then show ?thesis ..
qed

lemma normalize_row_Member:
  assumes "length m = 8"
  shows "normalize_row cfg (Member g) stamp m =
     (if strip (m ! 0) \<noteq> [] \<and> strip (m ! 1) \<noteq> [] \<and> strip (m ! 2) \<noteq> []
         \<and> strip (m ! 3) \<noteq> [] \<and> strip (m ! 4) \<noteq> []
      then Inr (Some \<lparr>date = strip (m ! 0), brand = strip (m ! 1), product = strip (m ! 2),
                      price = strip (m ! 3),
                      price_value = projr (extract_price (strip (m ! 3))),
                      unit = strip (m ! 4), purity = strip (m ! 5),
                      craft_fee = strip (m ! 6), trend = strip (m ! 7),
                      gold_type_name = name cfg, gold_type_code = GoldType_value g,
                      data_source = [26032, 28010, 36130, 32463], parsed_at = stamp\<rparr>)
      else Inr None)"
proof -
  obtain pv where pv: "extract_price (strip (m ! 3)) = Inr pv"
    using extract_price_Inr [of "strip (m ! 3)"] by (elim exE)
  from assms have len: "length (take 8 m) = 8" by simp
  show ?thesis
  proof (cases "strip (m ! 0) \<noteq> [] \<and> strip (m ! 1) \<noteq> [] \<and> strip (m ! 2) \<noteq> []
         \<and> strip (m ! 3) \<noteq> [] \<and> strip (m ! 4) \<noteq> []")
    case True
    then show ?thesis unfolding normalize_row_def Let_def pv len by simp
  next
    case False
    then show ?thesis unfolding normalize_row_def Let_def pv len by simp
  qed
qed

lemma build_loop_invariant:
  assumes "build_loop cfg gold_type now ms acc = Inr recs"
    and "\<forall>r\<in>set acc. P r"
    and "\<And>stamp m r. normalize_row cfg gold_type stamp m = Inr (Some r) \<Longrightarrow> P r"
  shows "\<forall>r\<in>set recs. P r"
  using assms(1,2)
proof (induction ms arbitrary: acc)
  case Nil
  then show ?case by simp
next
  case (Cons m ms)
  show ?case
  proof (cases "7 \<le> length m")
    case False
    then show ?thesis using Cons by simp
  next
    case True
    show ?thesis
    proof (cases "normalize_row cfg gold_type (now (length acc)) m")
      case (Inl e)
      then show ?thesis using Cons.prems True by simp
    next
      case (Inr o_r)
      show ?thesis
      proof (cases o_r)
        case None
        then show ?thesis using Cons Inr True by simp
      next
        case (Some r)
        have "P r" using assms(3) Inr Some by blast
        then have "\<forall>r\<in>set (acc @ [r]). P r" using Cons.prems(2) by simp
        moreover have "build_loop cfg gold_type now ms (acc @ [r]) = Inr recs"
          using Cons.prems(1) Inr Some True by simp
        ultimately show ?thesis using Cons.IH by blast
      qed
    qed
  qed
qed

lemma parse_records_invariant:
  assumes "parse_complete_gold_data now html gold_type = Inr recs"
    and "\<And>cfg stamp m r. normalize_row cfg gold_type stamp m = Inr (Some r) \<Longrightarrow> P r"
  shows "\<forall>r\<in>set recs. P r"
proof -
  from assms(1) obtain cfg where
    "build_loop cfg gold_type now
       (merge_loop (findall pattern html @ findall pattern2 html) {} []) [] = Inr recs"
    by (auto simp: parse_complete_gold_data_def Let_def split: sum.splits)
  then show ?thesis
    using build_loop_invariant [where P = P and acc = "[]"] assms(2) by fastforce
qed

text \<open>
  Claim C5. For a raw row of eight fields and a registered category, normalization
  trims every field and yields a record exactly when date, brand, product, price text
  and unit are all non-empty after trimming; otherwise the row is skipped without an
  error. The record holds the trimmed fields, and no record that extraction
  returns has one of the five fields empty.
\<close>

theorem normalize_row_validity:
  assumes "length m = 8"
  shows "((\<exists>r. normalize_row cfg (Member g) stamp m = Inr (Some r)) =
            (strip (m ! 0) \<noteq> [] \<and> strip (m ! 1) \<noteq> [] \<and> strip (m ! 2) \<noteq> []
             \<and> strip (m ! 3) \<noteq> [] \<and> strip (m ! 4) \<noteq> []))
     \<and> ((normalize_row cfg (Member g) stamp m = Inr None) =
            (strip (m ! 0) = [] \<or> strip (m ! 1) = [] \<or> strip (m ! 2) = []
             \<or> strip (m ! 3) = [] \<or> strip (m ! 4) = []))
     \<and> (\<forall>r. normalize_row cfg (Member g) stamp m = Inr (Some r) \<longrightarrow>
            date r = strip (m ! 0) \<and> brand r = strip (m ! 1) \<and> product r = strip (m ! 2)
            \<and> price r = strip (m ! 3) \<and> unit r = strip (m ! 4) \<and> purity r = strip (m ! 5)
            \<and> craft_fee r = strip (m ! 6) \<and> trend r = strip (m ! 7))
     \<and> (\<forall>recs. parse_complete_gold_data now html gold_type = Inr recs \<longrightarrow>
            (\<forall>r\<in>set recs. date r \<noteq> [] \<and> brand r \<noteq> [] \<and> product r \<noteq> []
                \<and> price r \<noteq> [] \<and> unit r \<noteq> []))"
proof -
  have a: "(\<exists>r. normalize_row cfg (Member g) stamp m = Inr (Some r)) =
            (strip (m ! 0) \<noteq> [] \<and> strip (m ! 1) \<noteq> [] \<and> strip (m ! 2) \<noteq> []
             \<and> strip (m ! 3) \<noteq> [] \<and> strip (m ! 4) \<noteq> [])"
    by (simp add: normalize_row_Member [OF assms])
  have b: "(normalize_row cfg (Member g) stamp m = Inr None) =
            (strip (m ! 0) = [] \<or> strip (m ! 1) = [] \<or> strip (m ! 2) = []
             \<or> strip (m ! 3) = [] \<or> strip (m ! 4) = [])"
    by (simp add: normalize_row_Member [OF assms])
  have c: "\<forall>r. normalize_row cfg (Member g) stamp m = Inr (Some r) \<longrightarrow>
            date r = strip (m ! 0) \<and> brand r = strip (m ! 1) \<and> product r = strip (m ! 2)
            \<and> price r = strip (m ! 3) \<and> unit r = strip (m ! 4) \<and> purity r = strip (m ! 5)
            \<and> craft_fee r = strip (m ! 6) \<and> trend r = strip (m ! 7)"
    using normalize_row_Some_fields by blast
  have d: "\<forall>r\<in>set recs. date r \<noteq> [] \<and> brand r \<noteq> [] \<and> product r \<noteq> []
                \<and> price r \<noteq> [] \<and> unit r \<noteq> []"
    if "parse_complete_gold_data now html gold_type = Inr recs" for recs
    using parse_records_invariant [OF that,
        where P = "\<lambda>r. date r \<noteq> [] \<and> brand r \<noteq> [] \<and> product r \<noteq> []
                \<and> price r \<noteq> [] \<and> unit r \<noteq> []"]
      normalize_row_Some_fields by blast
  show ?thesis using a b c d by blast
qed

text \<open>The theorem at the example row, and at a row whose unit is a blank.\<close>

theorem normalize_row_validity_witness:
  "(\<exists>r. normalize_row (projr (get_config (Member JEWELRY))) (Member JEWELRY)
          (py ''2025-09-17T10:00:00'') example_row = Inr (Some r))
   \<and> normalize_row (projr (get_config (Member JEWELRY))) (Member JEWELRY)
          (py ''2025-09-17T10:00:00'')
          [py ''2025-09-17'', py ''a'', py ''b'', py ''1'', py '' '', [], [], []] = Inr None"
proof -
  have l1: "length example_row = 8" by (simp add: example_row_def)
  have l2: "length [py ''2025-09-17'', py ''a'', py ''b'', py ''1'', py '' '', [], [], []] = 8"
    by simp
  have s1: "strip (example_row ! 0) \<noteq> [] \<and> strip (example_row ! 1) \<noteq> []
     \<and> strip (example_row ! 2) \<noteq> [] \<and> strip (example_row ! 3) \<noteq> []
     \<and> strip (example_row ! 4) \<noteq> []"
    by (simp add: example_row_def strip_example) (simp add: py_def)
  have s2: "strip (py '' '') = []" by (simp add: py_def is_space_def strip_def)
  show ?thesis
    using normalize_row_validity [OF l1, of "projr (get_config (Member JEWELRY))" JEWELRY
        "py ''2025-09-17T10:00:00''"]
      normalize_row_validity [OF l2, of "projr (get_config (Member JEWELRY))" JEWELRY
        "py ''2025-09-17T10:00:00''"] s1 s2
    by simp
qed



text \<open>
  Claim C10. A record built by normalization has a price value exactly when its
  trimmed price text contains a decimal digit, and a price value is never negative.
\<close>

theorem price_value_present_iff_digit:
  assumes "normalize_row cfg gold_type stamp m = Inr (Some r)"
  shows "(price_value r \<noteq> None) = (\<exists>c\<in>set (price r). is_decimal c)
     \<and> (\<forall>v. price_value r = Some v \<longrightarrow> 0 \<le> v)"
proof -
  from normalize_row_Some_fields [OF assms]
  have ep: "extract_price (price r) = Inr (price_value r)" by (elim conjE)
  from extract_price_total [of "price r"] obtain pv where
    pv: "extract_price (price r) = Inr pv"
    and none: "(pv = None) = (first_number (price r) = None)"
    and some: "\<forall>t. first_number (price r) = Some t \<longrightarrow>
        (\<exists>v. py_float t = Inr v \<and> pv = Some v \<and> 0 \<le> v)"
    by (elim exE conjE)
  from ep pv have eq: "pv = price_value r" by simp
  have a: "(price_value r \<noteq> None) = (\<exists>c\<in>set (price r). is_decimal c)"
    using none by (simp add: eq first_number_None)
  have b: "0 \<le> v" if "price_value r = Some v" for v
  proof -
    from that none obtain t where "first_number (price r) = Some t" by (auto simp: eq)
    with some that show ?thesis by (auto simp: eq)
  qed
  show ?thesis using a b by blast
qed

text \<open>The theorem at the record of the example row.\<close>

theorem price_value_present_iff_digit_witness:
  "normalize_row (projr (get_config (Member JEWELRY))) (Member JEWELRY)
      (py ''2025-09-17T10:00:00'') example_row =
     Inr (Some \<lparr>date = py ''2025-09-17'', brand = [21608, 22823, 31119],
                product = [36275, 37329], price = py ''823.00'', price_value = Some 823,
                unit = [20803, 47, 20811], purity = py ''999'', craft_fee = [26080],
                trend = [28072], gold_type_name = name (projr (get_config (Member JEWELRY))),
                gold_type_code = py ''jewelry'',
                data_source = [26032, 28010, 36130, 32463],
                parsed_at = py ''2025-09-17T10:00:00''\<rparr>)
   \<and> list_ex is_decimal (py ''823.00'') \<and> (0::rat) \<le> 823"
  using price_value_present_iff_digit [OF normalize_example_row,
      of "projr (get_config (Member JEWELRY))" "py ''2025-09-17T10:00:00''"]
    normalize_example_row [of "projr (get_config (Member JEWELRY))" "py ''2025-09-17T10:00:00''"]
  by (simp add: list_ex_iff)

section \<open>Deduplication: results\<close>

lemma merge_loop_acc: "merge_loop ms seen acc = acc @ merge_loop ms seen []"
proof (induction ms arbitrary: seen acc)
  case Nil
  show ?case by simp
next
  case (Cons m ms)
  show ?case
    using Cons [of "insert (match_key m) seen" "acc @ [m]"]
      Cons [of "insert (match_key m) seen" "[m]"] Cons [of seen acc]
    by (simp add: Let_def)
qed

lemma merge_loop_Cons:
  "merge_loop (m # ms) seen [] =
     (if 7 \<le> length m \<and> match_key m \<notin> seen
      then m # merge_loop ms (insert (match_key m) seen) []
      else merge_loop ms seen [])"
  using merge_loop_acc [of ms "insert (match_key m) seen" "[m]"] by (simp add: Let_def)








section \<open>Matching rows: results\<close>

text \<open>
  A star of the patterns is followed by a literal outside its class, so it takes the
  whole run and never gives characters back.
\<close>

lemma star_then_lit:
  assumes "\<forall>x\<in>set a. inC c x" "\<not> inC c d"
  shows "rmatch (Star c # One (Lit d) # r) (a @ d # s) caps None = rmatch r s caps None"
  using assms(1)
proof (induction a)
  case Nil
  show ?case using assms(2) by simp
next
  case (Cons x a)
  then have "x \<noteq> d" using assms(2) by auto
  then show ?case using Cons by (simp split: option.split)
qed

lemma star_close_then_lit:
  assumes "\<forall>x\<in>set a. inC c x" "\<not> inC c d"
  shows "rmatch (Star c # Close # One (Lit d) # r) (a @ d # s) caps (Some g)
     = rmatch r s (caps @ [g @ a]) None"
  using assms(1)
proof (induction a arbitrary: g)
  case Nil
  show ?case using assms(2) by simp
next
  case (Cons x a)
  then have "x \<noteq> d" using assms(2) by auto
  then show ?case using Cons.prems Cons.IH [of "g @ [x]"] by (simp split: option.split)
qed

lemma not_space_lt: "\<not> is_space 60"
  by (simp add: is_space_def)

lemma bare_core:
  assumes "well_formed_cell c"
  shows "rmatch (td_cell @ r) (cell_core Bare c @ s) caps None
     = rmatch r s (caps @ [content c]) None"
proof -
  have a: "\<forall>x\<in>set (td_attrs c). inC (Not 62) x" and f: "\<forall>x\<in>set (content c). inC (Not 60) x"
    using assms by (auto simp: well_formed_cell_def)
  show ?thesis
    using star_then_lit [OF a, of 62] star_close_then_lit [OF f, of 60]
    by (simp add: td_cell_def lits_def py_def)
qed

lemma wrapped_core:
  assumes "well_formed_cell c"
  shows "rmatch (div_cell @ r) (cell_core Wrapped c @ s) caps None
     = rmatch r s (caps @ [content c]) None"
proof -
  have a: "\<forall>x\<in>set (td_attrs c). inC (Not 62) x" and b: "\<forall>x\<in>set (div_attrs c). inC (Not 62) x"
    and f: "\<forall>x\<in>set (content c). inC (Not 60) x"
    using assms by (auto simp: well_formed_cell_def)
  show ?thesis
    using star_then_lit [OF a, of 62] star_then_lit [OF b, of 62]
      star_close_then_lit [OF f, of 60]
    by (simp add: div_cell_def lits_def py_def)
qed


declare cell_core.simps [simp del]

lemma starts_with_lt:
  "\<exists>r'. td_cell @ r = One (Lit 60) # r'" "\<exists>r'. div_cell @ r = One (Lit 60) # r'"
  "\<exists>s'. cell_core sh c @ s = 60 # s'"
  by (simp_all add: td_cell_def div_cell_def lits_def py_def cell_core.simps, cases sh,
      simp_all add: py_def cell_core.simps)

lemma gap_then_lt:
  assumes "list_all is_space w"
  shows "rmatch (gap @ One (Lit 60) # r) (w @ 60 # s) caps None
     = rmatch (One (Lit 60) # r) (60 # s) caps None"
proof -
  have "\<forall>x\<in>set w. inC Space x" using assms by (simp add: list_all_iff)
  from star_then_lit [OF this, of 60] show ?thesis by (simp add: gap_def not_space_lt)
qed

lemma gap_then_bare:
  assumes "list_all is_space w" "well_formed_cell c"
  shows "rmatch (gap @ td_cell @ r) (w @ cell_core Bare c @ s) caps None
     = rmatch r s (caps @ [content c]) None"
proof -
  obtain r' where td: "td_cell @ r = One (Lit 60) # r'" using starts_with_lt(1) by blast
  obtain s' where co: "cell_core Bare c @ s = 60 # s'" using starts_with_lt(3) by blast
  show ?thesis
    using gap_then_lt [OF assms(1), of r' s' caps] bare_core [OF assms(2), of r s caps]
    by (simp add: td co)
qed

lemma gap_then_wrapped:
  assumes "list_all is_space w" "well_formed_cell c"
  shows "rmatch (gap @ div_cell @ r) (w @ cell_core Wrapped c @ s) caps None
     = rmatch r s (caps @ [content c]) None"
proof -
  obtain r' where td: "div_cell @ r = One (Lit 60) # r'" using starts_with_lt(2) by blast
  obtain s' where co: "cell_core Wrapped c @ s = 60 # s'" using starts_with_lt(3) by blast
  show ?thesis
    using gap_then_lt [OF assms(1), of r' s' caps] wrapped_core [OF assms(2), of r s caps]
    by (simp add: td co)
qed

lemma gap_then_bare_last:
  assumes "list_all is_space w" "well_formed_cell c"
  shows "rmatch (gap @ td_cell) (w @ cell_core Bare c @ s) caps None
     = Some (caps @ [content c], s)"
  using gap_then_bare [OF assms, of "[]" s caps] by simp

lemma gap_then_wrapped_last:
  assumes "list_all is_space w" "well_formed_cell c"
  shows "rmatch (gap @ div_cell) (w @ cell_core Wrapped c @ s) caps None
     = Some (caps @ [content c], s)"
  using gap_then_wrapped [OF assms, of "[]" s caps] by simp

lemma list8: "length xs = 8 \<Longrightarrow> \<exists>a b c d e f g h. xs = [a, b, c, d, e, f, g, h]"
  by (auto simp: numeral_eq_Suc length_Suc_conv)

lemma pattern_unfold:
  "pattern = td_cell @ gap @ td_cell @ gap @ td_cell @ gap @ td_cell @ gap
     @ td_cell @ gap @ td_cell @ gap @ td_cell @ gap @ td_cell @ []"
  "pattern2 = div_cell @ gap @ div_cell @ gap @ div_cell @ gap @ div_cell @ gap
     @ div_cell @ gap @ div_cell @ gap @ div_cell @ gap @ div_cell @ []"
  by (simp_all add: pattern_def pattern2_def)

lemma match_bare_row:
  assumes "well_formed_row (Bare, cs)"
  shows "rmatch pattern (render_row (Bare, cs) @ s) [] None
     = Some (map content cs, trailing (last cs) @ s)"
proof -
  from assms obtain c1 c2 c3 c4 c5 c6 c7 c8 where cs: "cs = [c1, c2, c3, c4, c5, c6, c7, c8]"
    using list8 [of cs] by (auto simp: well_formed_row_def)
  from assms have wf: "well_formed_cell c1" "well_formed_cell c2" "well_formed_cell c3"
    "well_formed_cell c4" "well_formed_cell c5" "well_formed_cell c6" "well_formed_cell c7"
    "well_formed_cell c8"
    by (simp_all add: well_formed_row_def cs)
  then have sp: "list_all is_space (trailing c1)" "list_all is_space (trailing c2)"
    "list_all is_space (trailing c3)" "list_all is_space (trailing c4)"
    "list_all is_space (trailing c5)" "list_all is_space (trailing c6)"
    "list_all is_space (trailing c7)"
    by (simp_all add: well_formed_cell_def)
  show ?thesis
    unfolding pattern_unfold cs
    by (simp add: render_row_def render_cell_def bare_core gap_then_bare gap_then_bare_last wf sp)
qed

lemma match_wrapped_row:
  assumes "well_formed_row (Wrapped, cs)"
  shows "rmatch pattern2 (render_row (Wrapped, cs) @ s) [] None
     = Some (map content cs, trailing (last cs) @ s)"
proof -
  from assms obtain c1 c2 c3 c4 c5 c6 c7 c8 where cs: "cs = [c1, c2, c3, c4, c5, c6, c7, c8]"
    using list8 [of cs] by (auto simp: well_formed_row_def)
  from assms have wf: "well_formed_cell c1" "well_formed_cell c2" "well_formed_cell c3"
    "well_formed_cell c4" "well_formed_cell c5" "well_formed_cell c6" "well_formed_cell c7"
    "well_formed_cell c8"
    by (simp_all add: well_formed_row_def cs)
  then have sp: "list_all is_space (trailing c1)" "list_all is_space (trailing c2)"
    "list_all is_space (trailing c3)" "list_all is_space (trailing c4)"
    "list_all is_space (trailing c5)" "list_all is_space (trailing c6)"
    "list_all is_space (trailing c7)"
    by (simp_all add: well_formed_cell_def)
  show ?thesis
    unfolding pattern_unfold cs
    by (simp add: render_row_def render_cell_def wrapped_core gap_then_wrapped gap_then_wrapped_last wf sp)
qed


lemma findall_None:
  "rmatch p (x # s) [] None = None \<Longrightarrow> findall p (x # s) = findall p s"
  by simp

lemma findall_skip_char:
  "x \<noteq> 60 \<Longrightarrow> findall (One (Lit 60) # r) (x # s) = findall (One (Lit 60) # r) s"
  by simp

lemma findall_skip_text:
  "60 \<notin> set w \<Longrightarrow> findall (One (Lit 60) # r) (w @ s) = findall (One (Lit 60) # r) s"
  by (induction w) simp_all

lemma findall_skip_lt:
  "y \<noteq> d \<Longrightarrow>
   findall (One (Lit 60) # One (Lit d) # r) (60 # y # s)
     = findall (One (Lit 60) # One (Lit d) # r) (y # s)"
  by simp

lemma findall_skip_space:
  "list_all is_space w \<Longrightarrow> findall (One (Lit 60) # r) (w @ s) = findall (One (Lit 60) # r) s"
  by (rule findall_skip_text) (auto simp: list_all_iff not_space_lt)

lemma td_cell_unfold:
  "td_cell @ r = One (Lit 60) # One (Lit 116) # One (Lit 100) # Star (Not 62) # One (Lit 62)
     # Open # Star (Not 60) # Close # One (Lit 60) # One (Lit 47) # One (Lit 116)
     # One (Lit 100) # One (Lit 62) # r"
  by (simp add: td_cell_def lits_def)

lemma div_cell_unfold:
  "div_cell @ r = One (Lit 60) # One (Lit 116) # One (Lit 100) # Star (Not 62) # One (Lit 62)
     # One (Lit 60) # One (Lit 100) # One (Lit 105) # One (Lit 118) # Star (Not 62)
     # One (Lit 62) # Open # Star (Not 60) # Close # One (Lit 60) # One (Lit 47)
     # One (Lit 100) # One (Lit 105) # One (Lit 118) # One (Lit 62) # One (Lit 60)
     # One (Lit 47) # One (Lit 116) # One (Lit 100) # One (Lit 62) # r"
  by (simp add: div_cell_def lits_def)

lemma bare_pattern_fails_on_wrapped:
  assumes "well_formed_cell c"
  shows "rmatch (td_cell @ r) (cell_core Wrapped c @ s) [] None = None"
proof -
  have a: "\<forall>x\<in>set (td_attrs c). inC (Not 62) x"
    using assms by (auto simp: well_formed_cell_def)
  show ?thesis
    using star_then_lit [OF a, of 62]
    by (simp add: td_cell_unfold cell_core.simps py_def)
qed

lemma wrapped_pattern_fails_on_bare:
  assumes "well_formed_cell c"
  shows "rmatch (div_cell @ r) (cell_core Bare c @ s) [] None = None"
proof -
  have a: "\<forall>x\<in>set (td_attrs c). inC (Not 62) x"
    using assms by (auto simp: well_formed_cell_def)
  have f: "60 \<notin> set (content c)" using assms by (simp add: well_formed_cell_def)
  show ?thesis
  proof (cases "content c")
    case Nil
    then show ?thesis
      using star_then_lit [OF a, of 62]
      by (simp add: div_cell_unfold cell_core.simps py_def)
  next
    case (Cons x xs)
    then have "x \<noteq> 60" using f by auto
    then show ?thesis
      using star_then_lit [OF a, of 62] Cons
      by (simp add: div_cell_unfold cell_core.simps py_def)
  qed
qed

lemma skip_wrapped_cell:
  assumes "well_formed_cell c"
  shows "findall (td_cell @ r) (render_cell Wrapped c @ s) = findall (td_cell @ r) s"
proof -
  have n: "60 \<notin> set (td_attrs c)" "60 \<notin> set (div_attrs c)" "60 \<notin> set (content c)"
    and w: "list_all is_space (trailing c)"
    using assms by (simp_all add: well_formed_cell_def)
  have "findall (td_cell @ r) (cell_core Wrapped c @ trailing c @ s)
      = findall (td_cell @ r) (tl (cell_core Wrapped c @ trailing c @ s))"
    using bare_pattern_fails_on_wrapped [OF assms, of r "trailing c @ s"]
    by (simp add: cell_core.simps py_def)
  also have "\<dots> = findall (td_cell @ r) s"
    unfolding td_cell_unfold
    by (simp add: cell_core.simps py_def findall_skip_text findall_skip_space n w
          del: findall.simps)
       (simp add: findall_skip_char findall_skip_lt findall_skip_text findall_skip_space n w
          del: findall.simps)
  finally show ?thesis by (simp add: render_cell_def)
qed


lemma skip_bare_cell:
  assumes "well_formed_cell c"
  shows "findall (div_cell @ r) (render_cell Bare c @ s) = findall (div_cell @ r) s"
proof -
  have n: "60 \<notin> set (td_attrs c)" "60 \<notin> set (content c)"
    and w: "list_all is_space (trailing c)"
    using assms by (simp_all add: well_formed_cell_def)
  have "findall (div_cell @ r) (cell_core Bare c @ trailing c @ s)
      = findall (div_cell @ r) (tl (cell_core Bare c @ trailing c @ s))"
    using wrapped_pattern_fails_on_bare [OF assms, of r "trailing c @ s"]
    by (simp add: cell_core.simps py_def)
  also have "\<dots> = findall (div_cell @ r) s"
    unfolding div_cell_unfold
    by (simp add: cell_core.simps py_def findall_skip_text findall_skip_space n w
          del: findall.simps)
       (simp add: findall_skip_char findall_skip_lt findall_skip_text findall_skip_space n w
          del: findall.simps)
  finally show ?thesis by (simp add: render_cell_def)
qed

lemma skip_wrapped_cells:
  "list_all well_formed_cell cs \<Longrightarrow>
   findall (td_cell @ r) (concat (map (render_cell Wrapped) cs) @ s) = findall (td_cell @ r) s"
  by (induction cs) (simp_all add: skip_wrapped_cell del: findall.simps)

lemma skip_bare_cells:
  "list_all well_formed_cell cs \<Longrightarrow>
   findall (div_cell @ r) (concat (map (render_cell Bare) cs) @ s) = findall (div_cell @ r) s"
  by (induction cs) (simp_all add: skip_bare_cell del: findall.simps)

lemma pattern_heads:
  "pattern = td_cell @ (gap @ td_cell @ gap @ td_cell @ gap @ td_cell @ gap
     @ td_cell @ gap @ td_cell @ gap @ td_cell @ gap @ td_cell)"
  "pattern2 = div_cell @ (gap @ div_cell @ gap @ div_cell @ gap @ div_cell @ gap
     @ div_cell @ gap @ div_cell @ gap @ div_cell @ gap @ div_cell)"
  by (simp_all add: pattern_def pattern2_def)

lemma skip_wrapped_row:
  "well_formed_row (Wrapped, cs) \<Longrightarrow>
   findall pattern (render_row (Wrapped, cs) @ s) = findall pattern s"
  unfolding pattern_heads(1)
  by (simp add: render_row_def well_formed_row_def skip_wrapped_cells del: findall.simps)

lemma skip_bare_row:
  "well_formed_row (Bare, cs) \<Longrightarrow>
   findall pattern2 (render_row (Bare, cs) @ s) = findall pattern2 s"
  unfolding pattern_heads(2)
  by (simp add: render_row_def well_formed_row_def skip_bare_cells del: findall.simps)

lemma findall_Some:
  assumes "t \<noteq> []" "rmatch p t [] None = Some (caps, rest)" "length rest < length t"
  shows "findall p t = caps # findall p rest"
  using assms by (cases t) simp_all

lemma render_row_longer:
  assumes "cs \<noteq> []"
  shows "length (trailing (last cs)) < length (render_row (sh, cs))"
proof -
  from assms have "cs = butlast cs @ [last cs]" by simp
  then have "render_row (sh, cs)
      = concat (map (render_cell sh) (butlast cs)) @ render_cell sh (last cs)"
    by (metis (no_types, lifting) append_Nil2 concat.simps concat_append fst_conv
        list.simps(8,9) map_append render_row_def snd_conv)
  moreover have "0 < length (cell_core sh (last cs))"
    by (cases sh) (simp_all add: cell_core.simps py_def)
  ultimately show ?thesis by (simp add: render_cell_def)
qed

lemma pattern_starts:
  "\<exists>r. pattern = One (Lit 60) # r" "\<exists>r. pattern2 = One (Lit 60) # r"
  by (simp_all add: pattern_heads td_cell_unfold div_cell_unfold)

lemma take_bare_row:
  assumes "well_formed_row (Bare, cs)"
  shows "findall pattern (render_row (Bare, cs) @ s) = map content cs # findall pattern s"
proof -
  from assms have ne: "cs \<noteq> []" by (auto simp: well_formed_row_def)
  then have "last cs \<in> set cs" by simp
  with assms have sp: "list_all is_space (trailing (last cs))"
    by (simp add: well_formed_row_def well_formed_cell_def list_all_iff)
  have "findall pattern (render_row (Bare, cs) @ s)
      = map content cs # findall pattern (trailing (last cs) @ s)"
    using render_row_longer [OF ne, of Bare]
    by (intro findall_Some match_bare_row [OF assms]) auto
  also have "findall pattern (trailing (last cs) @ s) = findall pattern s"
  proof -
    obtain r where p: "pattern = One (Lit 60) # r" using pattern_starts(1) by blast
    show ?thesis unfolding p by (rule findall_skip_space [OF sp])
  qed
  finally show ?thesis .
qed

lemma take_wrapped_row:
  assumes "well_formed_row (Wrapped, cs)"
  shows "findall pattern2 (render_row (Wrapped, cs) @ s) = map content cs # findall pattern2 s"
proof -
  from assms have ne: "cs \<noteq> []" by (auto simp: well_formed_row_def)
  then have "last cs \<in> set cs" by simp
  with assms have sp: "list_all is_space (trailing (last cs))"
    by (simp add: well_formed_row_def well_formed_cell_def list_all_iff)
  have "findall pattern2 (render_row (Wrapped, cs) @ s)
      = map content cs # findall pattern2 (trailing (last cs) @ s)"
    using render_row_longer [OF ne, of Wrapped]
    by (intro findall_Some match_wrapped_row [OF assms]) auto
  also have "findall pattern2 (trailing (last cs) @ s) = findall pattern2 s"
  proof -
    obtain r where p: "pattern2 = One (Lit 60) # r" using pattern_starts(2) by blast
    show ?thesis unfolding p by (rule findall_skip_space [OF sp])
  qed
  finally show ?thesis .
qed


lemma findall_skip_inert:
  "inert w \<Longrightarrow>
   findall (One (Lit 60) # One (Lit 116) # One (Lit 100) # r) (w @ s)
     = findall (One (Lit 60) # One (Lit 116) # One (Lit 100) # r) s"
  by (induction w rule: inert.induct) auto

lemma pattern_td_starts:
  "\<exists>r. pattern = One (Lit 60) # One (Lit 116) # One (Lit 100) # r"
  "\<exists>r. pattern2 = One (Lit 60) # One (Lit 116) # One (Lit 100) # r"
  by (simp_all add: pattern_heads td_cell_unfold div_cell_unfold)

lemma skip_inert:
  assumes "inert w"
  shows "findall pattern (w @ s) = findall pattern s"
    and "findall pattern2 (w @ s) = findall pattern2 s"
proof -
  obtain r where p: "pattern = One (Lit 60) # One (Lit 116) # One (Lit 100) # r"
    using pattern_td_starts(1) by blast
  show "findall pattern (w @ s) = findall pattern s"
    unfolding p by (rule findall_skip_inert [OF assms])
  obtain r2 where p2: "pattern2 = One (Lit 60) # One (Lit 116) # One (Lit 100) # r2"
    using pattern_td_starts(2) by blast
  show "findall pattern2 (w @ s) = findall pattern2 s"
    unfolding p2 by (rule findall_skip_inert [OF assms])
qed

lemma findall_empty: "findall pattern [] = []" "findall pattern2 [] = []"
proof -
  obtain r where p: "pattern = One (Lit 60) # r" using pattern_starts(1) by blast
  show "findall pattern [] = []" unfolding p by simp
  obtain r2 where p2: "pattern2 = One (Lit 60) # r2" using pattern_starts(2) by blast
  show "findall pattern2 [] = []" unfolding p2 by simp
qed

lemma findall_rows:
  assumes "\<forall>(r, rest)\<in>set rows. well_formed_row r \<and> inert rest"
  shows "findall pattern (concat (map (\<lambda>(r, rest). render_row r @ rest) rows))
      = map row_contents (filter (\<lambda>r. fst r = Bare) (map fst rows))"
    and "findall pattern2 (concat (map (\<lambda>(r, rest). render_row r @ rest) rows))
      = map row_contents (filter (\<lambda>r. fst r = Wrapped) (map fst rows))"
  using assms
proof (induction rows)
  case Nil
  {
    case 1
    show ?case by (simp add: findall_empty del: findall.simps)
  next
    case 2
    show ?case by (simp add: findall_empty del: findall.simps)
  }
next
  case (Cons a rows)
  obtain sh cs rest where a: "a = ((sh, cs), rest)" by (cases a) auto
  {
    case 1
    then have wf: "well_formed_row (sh, cs)" and i: "inert rest"
      and r: "\<forall>(r, rest)\<in>set rows. well_formed_row r \<and> inert rest"
      by (simp_all add: a)
    show ?case
    proof (cases sh)
      case Bare
      then show ?thesis
        using take_bare_row [of cs] wf skip_inert(1) [OF i] Cons.IH(1) [OF r]
        by (simp add: a row_contents_def del: findall.simps)
    next
      case Wrapped
      then show ?thesis
        using skip_wrapped_row [of cs] wf skip_inert(1) [OF i] Cons.IH(1) [OF r]
        by (simp add: a del: findall.simps)
    qed
  next
    case 2
    then have wf: "well_formed_row (sh, cs)" and i: "inert rest"
      and r: "\<forall>(r, rest)\<in>set rows. well_formed_row r \<and> inert rest"
      by (simp_all add: a)
    show ?case
    proof (cases sh)
      case Bare
      then show ?thesis
        using skip_bare_row [of cs] wf skip_inert(2) [OF i] Cons.IH(2) [OF r]
        by (simp add: a del: findall.simps)
    next
      case Wrapped
      then show ?thesis
        using take_wrapped_row [of cs] wf skip_inert(2) [OF i] Cons.IH(2) [OF r]
        by (simp add: a row_contents_def del: findall.simps)
    qed
  }
qed

lemma findall_page:
  assumes "inert lead" "\<forall>(r, rest)\<in>set rows. well_formed_row r \<and> inert rest"
  shows "findall pattern (render_page lead rows)
      = map row_contents (filter (\<lambda>r. fst r = Bare) (map fst rows))"
    and "findall pattern2 (render_page lead rows)
      = map row_contents (filter (\<lambda>r. fst r = Wrapped) (map fst rows))"
  using skip_inert [OF assms(1)] findall_rows [OF assms(2)]
  by (simp_all add: render_page_def del: findall.simps)

section \<open>Extraction of a page: results\<close>

lemma merge_loop_distinct:
  assumes "distinct (map match_key ms)" "\<forall>m\<in>set ms. 7 \<le> length m"
    "match_key ` set ms \<inter> seen = {}"
  shows "merge_loop ms seen [] = ms"
  using assms
proof (induction ms arbitrary: seen)
  case Nil
  show ?case by simp
next
  case (Cons m ms)
  then have "merge_loop ms (insert (match_key m) seen) [] = ms"
    by (intro Cons.IH) auto
  then show ?case using Cons.prems by (auto simp: merge_loop_Cons simp del: merge_loop.simps)
qed

lemma normalize_row_valid:
  assumes "length m = 8" "\<forall>i<5. strip (m ! i) \<noteq> []"
  shows "\<exists>r. normalize_row cfg (Member g) stamp m = Inr (Some r)"
proof -
  have "strip (m ! 0) \<noteq> []" "strip (m ! 1) \<noteq> []" "strip (m ! 2) \<noteq> []"
    "strip (m ! 3) \<noteq> []" "strip (m ! 4) \<noteq> []"
    using assms(2) by simp_all
  then show ?thesis by (simp add: normalize_row_Member [OF assms(1)])
qed

lemma build_loop_valid:
  assumes "\<forall>m\<in>set ms. length m = 8 \<and> (\<forall>i<5. strip (m ! i) \<noteq> [])"
  shows "\<exists>recs. build_loop cfg (Member g) now ms acc = Inr (acc @ recs)
     \<and> length recs = length ms
     \<and> (\<forall>i<length ms. normalize_row cfg (Member g) (now (length acc + i)) (ms ! i)
            = Inr (Some (recs ! i)))"
  using assms
proof (induction ms arbitrary: acc)
  case Nil
  show ?case by simp
next
  case (Cons m ms)
  then have m: "length m = 8" "\<forall>i<5. strip (m ! i) \<noteq> []" by simp_all
  from normalize_row_valid [OF m] obtain r where
    r: "normalize_row cfg (Member g) (now (length acc)) m = Inr (Some r)" by blast
  from Cons.prems have "\<forall>m\<in>set ms. length m = 8 \<and> (\<forall>i<5. strip (m ! i) \<noteq> [])" by simp
  from Cons.IH [OF this, of "acc @ [r]"] obtain recs where
    b: "build_loop cfg (Member g) now ms (acc @ [r]) = Inr ((acc @ [r]) @ recs)"
    and l: "length recs = length ms"
    and n: "\<forall>i<length ms. normalize_row cfg (Member g) (now (length (acc @ [r]) + i)) (ms ! i)
            = Inr (Some (recs ! i))"
    by blast
  have "build_loop cfg (Member g) now (m # ms) acc = Inr (acc @ r # recs)"
    using b r m(1) by simp
  moreover have "length (r # recs) = length (m # ms)" using l by simp
  moreover have "\<forall>i<length (m # ms).
      normalize_row cfg (Member g) (now (length acc + i)) ((m # ms) ! i)
        = Inr (Some ((r # recs) ! i))"
  proof (intro allI impI)
    fix i
    assume "i < length (m # ms)"
    then show "normalize_row cfg (Member g) (now (length acc + i)) ((m # ms) ! i)
        = Inr (Some ((r # recs) ! i))"
      using r n by (cases i) simp_all
  qed
  ultimately show ?case by blast
qed

lemma get_config_Member_Inr: "get_config (Member g) = Inr (projr (get_config (Member g)))"
  by (cases g) (simp_all add: get_config_def subscript_def dict_get_def GOLD_CONFIGS_def)

lemma distinct_map_partition:
  assumes "distinct (map f xs)"
  shows "distinct (map f (filter P xs @ filter (\<lambda>x. \<not> P x) xs))"
proof -
  from assms have inj: "inj_on f (set xs)" by (simp add: distinct_map)
  have "f a \<noteq> f b" if "a \<in> set xs" "P a" "b \<in> set xs" "\<not> P b" for a b
    using inj_onD [OF inj _ that(1) that(3)] that(2,4) by auto
  then show ?thesis using assms by (auto simp: distinct_map_filter)
qed

lemma parse_page:
  assumes "inert lead"
    and "\<forall>(r, rest)\<in>set rows. well_formed_row r \<and> valid_row r \<and> inert rest"
    and "distinct (map (match_key \<circ> row_contents \<circ> fst) rows)"
    and "ordered = map row_contents (filter (\<lambda>r. fst r = Bare) (map fst rows))
                 @ map row_contents (filter (\<lambda>r. fst r = Wrapped) (map fst rows))"
  shows "\<exists>recs. parse_complete_gold_data now (render_page lead rows) (Member g) = Inr recs
     \<and> length recs = length rows
     \<and> (\<forall>i<length rows.
           normalize_row (projr (get_config (Member g))) (Member g) (now i) (ordered ! i)
             = Inr (Some (recs ! i)))"
proof -
  let ?cfg = "projr (get_config (Member g))"
  have wf: "\<forall>(r, rest)\<in>set rows. well_formed_row r \<and> inert rest"
    using assms(2) by auto
  have pool: "findall pattern (render_page lead rows) @ findall pattern2 (render_page lead rows)
      = ordered"
    by (simp only: findall_page [OF assms(1) wf] assms(4))
  have "(sh = Wrapped) = (sh \<noteq> Bare)" for sh
    by (cases sh) simp_all
  then have W: "(\<lambda>r::row. fst r = Wrapped) = (\<lambda>r. \<not> fst r = Bare)"
    by simp
  have len: "length ordered = length rows"
    unfolding assms(4) W using sum_length_filter_compl [of "\<lambda>r. fst r = Bare" "map fst rows"]
    by simp
  have mem: "set ordered = row_contents ` fst ` set rows"
    unfolding assms(4) W by auto
  have each: "\<forall>m\<in>set ordered. length m = 8 \<and> (\<forall>i<5. strip (m ! i) \<noteq> [])"
    using assms(2) unfolding mem
    by (auto simp: well_formed_row_def valid_row_def row_contents_def)
  have "distinct (map (match_key \<circ> row_contents) (map fst rows))"
    using assms(3) by (simp add: comp_def)
  from distinct_map_partition [OF this, of "\<lambda>r. fst r = Bare"]
  have dist: "distinct (map match_key ordered)"
    unfolding assms(4) W by (simp add: comp_def)
  have "\<forall>m\<in>set ordered. 7 \<le> length m" using each by simp
  then have merged: "merge_loop ordered {} [] = ordered"
    using merge_loop_distinct [OF dist, of "{}"] by simp
  from build_loop_valid [OF each, of ?cfg g now "[]"] obtain recs where
    "build_loop ?cfg (Member g) now ordered [] = Inr recs" "length recs = length ordered"
    "\<forall>i<length ordered. normalize_row ?cfg (Member g) (now i) (ordered ! i)
        = Inr (Some (recs ! i))"
    by auto
  moreover have "parse_complete_gold_data now (render_page lead rows) (Member g)
      = build_loop ?cfg (Member g) now ordered []"
  proof -
    obtain cfg where cfg: "get_config (Member g) = Inr cfg"
      using get_config_Member_Inr by blast
    show ?thesis
      unfolding parse_complete_gold_data_def Let_def pool merged cfg by simp
  qed
  ultimately show ?thesis by (simp add: len)
qed


text \<open>
  Claim C3, as amended. For a page of well-formed rows of eight cells, each bare or
  wrapped, whose keys are pairwise different and whose required fields are non-empty
  after trimming, extraction returns exactly one record for every row. The records of
  the bare rows come first, in the order of the page, and the records of the wrapped
  rows follow, in the order of the page; when all rows have the same shape this is
  the order of the page.
\<close>

theorem extraction_of_well_formed_page:
  assumes "inert lead"
    and "\<forall>(r, rest)\<in>set rows. well_formed_row r \<and> valid_row r \<and> inert rest"
    and "distinct (map (match_key \<circ> row_contents \<circ> fst) rows)"
    and "ordered = map row_contents (filter (\<lambda>r. fst r = Bare) (map fst rows))
                 @ map row_contents (filter (\<lambda>r. fst r = Wrapped) (map fst rows))"
  shows "(\<exists>recs. parse_complete_gold_data now (render_page lead rows) (Member g) = Inr recs
       \<and> length recs = length rows
       \<and> (\<forall>i<length rows.
             normalize_row (projr (get_config (Member g))) (Member g) (now i) (ordered ! i)
               = Inr (Some (recs ! i))))
     \<and> ((\<forall>r\<in>set rows. fst (fst r) = Bare) \<or> (\<forall>r\<in>set rows. fst (fst r) = Wrapped)
          \<longrightarrow> ordered = map (row_contents \<circ> fst) rows)"
proof -
  have "ordered = map (row_contents \<circ> fst) rows"
    if "(\<forall>r\<in>set rows. fst (fst r) = Bare) \<or> (\<forall>r\<in>set rows. fst (fst r) = Wrapped)"
    using that
  proof
    assume "\<forall>r\<in>set rows. fst (fst r) = Bare"
    then have "filter (\<lambda>r. fst r = Bare) (map fst rows) = map fst rows"
      "filter (\<lambda>r. fst r = Wrapped) (map fst rows) = []"
      by (auto simp: filter_empty_conv)
    then show ?thesis by (simp add: assms(4))
  next
    assume "\<forall>r\<in>set rows. fst (fst r) = Wrapped"
    then have "filter (\<lambda>r. fst r = Wrapped) (map fst rows) = map fst rows"
      "filter (\<lambda>r. fst r = Bare) (map fst rows) = []"
      by (auto simp: filter_empty_conv)
    then show ?thesis by (simp add: assms(4))
  qed
  then show ?thesis using parse_page [OF assms] by blast
qed

lemma all_less_5: "(\<forall>i<5. P i) = (P 0 \<and> P 1 \<and> P 2 \<and> P 3 \<and> P (4::nat))"
proof -
  have "(i < 5) = (i = 0 \<or> i = 1 \<or> i = 2 \<or> i = 3 \<or> i = 4)" for i :: nat
    by arith
  then show ?thesis by auto
qed

lemma content_plain [simp]: "content (plain f) = f"
  by (simp add: plain_def)

lemma map_content_plain [simp]: "map (content \<circ> plain) xs = xs"
  by (induction xs) simp_all

lemma example_rows_facts:
  "inert []"
  "\<forall>(r, rest)\<in>set example_rows. well_formed_row r \<and> valid_row r \<and> inert rest"
  "distinct (map (match_key \<circ> row_contents \<circ> fst) example_rows)"
  "map row_contents (filter (\<lambda>r. fst r = Bare) (map fst example_rows))
     @ map row_contents (filter (\<lambda>r. fst r = Wrapped) (map fst example_rows))
   = [example_row, example_row_no_price]"
proof -
  show "inert []" by simp
  have c: "map content (map plain xs) = xs" for xs
    by simp
  have w: "list_all well_formed_cell (map plain example_row)"
    "list_all well_formed_cell (map plain example_row_no_price)"
    by (simp_all add: example_row_def example_row_no_price_def plain_def well_formed_cell_def
        py_def)
  have va: "valid_row (sh, map plain example_row)"
    "valid_row (sh, map plain example_row_no_price)" for sh
    unfolding valid_row_def row_contents_def snd_conv c all_less_5
    by (simp_all add: example_row_def example_row_no_price_def strip_example)
       (simp_all add: py_def)
  have i: "inert (py ''</tr><tr>'')" "inert (py ''</tr>'')" by (simp_all add: py_def)
  show "\<forall>(r, rest)\<in>set example_rows. well_formed_row r \<and> valid_row r \<and> inert rest"
    using w va i
    by (simp add: example_rows_def well_formed_row_def example_row_def example_row_no_price_def)
  show "distinct (map (match_key \<circ> row_contents \<circ> fst) example_rows)"
    by (simp add: example_rows_def row_contents_def c match_key_def)
       (simp add: example_row_def example_row_no_price_def py_def plain_def)
  show "map row_contents (filter (\<lambda>r. fst r = Bare) (map fst example_rows))
     @ map row_contents (filter (\<lambda>r. fst r = Wrapped) (map fst example_rows))
   = [example_row, example_row_no_price]"
    by (simp add: example_rows_def row_contents_def c)
qed


lemma parse_example_rows:
  "\<exists>r0 r1. parse_complete_gold_data now (render_page [] example_rows) (Member JEWELRY)
       = Inr [r0, r1]
     \<and> normalize_row (projr (get_config (Member JEWELRY))) (Member JEWELRY) (now 0)
           example_row = Inr (Some r0)
     \<and> normalize_row (projr (get_config (Member JEWELRY))) (Member JEWELRY) (now 1)
           example_row_no_price = Inr (Some r1)"
proof -
  from parse_page [OF example_rows_facts(1,2,3) example_rows_facts(4) [symmetric],
      of now JEWELRY]
  obtain recs where p: "parse_complete_gold_data now (render_page [] example_rows)
        (Member JEWELRY) = Inr recs"
    and l: "length recs = length example_rows"
    and n: "\<forall>i<length example_rows.
           normalize_row (projr (get_config (Member JEWELRY))) (Member JEWELRY) (now i)
             ([example_row, example_row_no_price] ! i) = Inr (Some (recs ! i))"
    by blast
  have l2: "length example_rows = 2" by (simp add: example_rows_def)
  from l l2 have "recs = [recs ! 0, recs ! 1]"
    by (cases recs; cases "tl recs") auto
  moreover from n l2 have
    "normalize_row (projr (get_config (Member JEWELRY))) (Member JEWELRY) (now 0)
       example_row = Inr (Some (recs ! 0))"
    "normalize_row (projr (get_config (Member JEWELRY))) (Member JEWELRY) (now 1)
       example_row_no_price = Inr (Some (recs ! 1))"
    by (auto dest: spec [of _ 0] spec [of _ 1])
  ultimately show ?thesis using p by metis
qed

text \<open>
  Claim C3 as stated fails: on the page whose first row is wrapped, with the price text
  "negotiable", and whose second row is bare, with the price text 823.00, the record of
  the second row comes first.
\<close>

theorem extraction_order_is_not_document_order:
  "map_sum id (map price)
     (parse_complete_gold_data (\<lambda>k. []) (render_page [] example_rows) (Member JEWELRY))
     = Inr [py ''823.00'', [38754, 35758]]
   \<and> map (\<lambda>r. row_contents (fst r) ! 3) example_rows = [[38754, 35758], py ''823.00'']"
proof -
  from parse_example_rows [of "\<lambda>k. []"] obtain r0 r1 where
    "parse_complete_gold_data (\<lambda>k. []) (render_page [] example_rows) (Member JEWELRY)
       = Inr [r0, r1]"
    "normalize_row (projr (get_config (Member JEWELRY))) (Member JEWELRY) []
           example_row = Inr (Some r0)"
    "normalize_row (projr (get_config (Member JEWELRY))) (Member JEWELRY) []
           example_row_no_price = Inr (Some r1)"
    by blast
  then have "map_sum id (map price)
     (parse_complete_gold_data (\<lambda>k. []) (render_page [] example_rows) (Member JEWELRY))
     = Inr [py ''823.00'', [38754, 35758]]"
    by (simp add: normalize_example_row normalize_example_row_no_price) auto
  moreover have "map (\<lambda>r. row_contents (fst r) ! 3) example_rows
      = [[38754, 35758], py ''823.00'']"
    by (simp add: example_rows_def row_contents_def)
       (simp add: example_row_def example_row_no_price_def)
  ultimately show ?thesis by blast
qed

text \<open>The theorem at the page of the two example rows.\<close>

theorem extraction_of_well_formed_page_witness:
  "\<exists>recs. parse_complete_gold_data (\<lambda>k. []) (render_page [] example_rows) (Member JEWELRY)
       = Inr recs
     \<and> length recs = 2
     \<and> normalize_row (projr (get_config (Member JEWELRY))) (Member JEWELRY) []
           example_row = Inr (Some (recs ! 0))
     \<and> normalize_row (projr (get_config (Member JEWELRY))) (Member JEWELRY) []
           example_row_no_price = Inr (Some (recs ! 1))"
proof -
  have l2: "length example_rows = 2" by (simp add: example_rows_def)
  from extraction_of_well_formed_page [OF example_rows_facts(1,2,3)
      example_rows_facts(4) [symmetric], of "\<lambda>k. []" JEWELRY]
  obtain recs where p: "parse_complete_gold_data (\<lambda>k. []) (render_page [] example_rows)
        (Member JEWELRY) = Inr recs"
    and l: "length recs = length example_rows"
    and n: "\<forall>i<length example_rows.
           normalize_row (projr (get_config (Member JEWELRY))) (Member JEWELRY) []
             ([example_row, example_row_no_price] ! i) = Inr (Some (recs ! i))"
    by blast
  from n l2 have
    "normalize_row (projr (get_config (Member JEWELRY))) (Member JEWELRY) []
       example_row = Inr (Some (recs ! 0))"
    "normalize_row (projr (get_config (Member JEWELRY))) (Member JEWELRY) []
       example_row_no_price = Inr (Some (recs ! 1))"
    by (auto dest: spec [of _ 0] spec [of _ 1])
  then show ?thesis using p l l2 by auto
qed




section \<open>Determinism: results\<close>

lemma normalize_row_stamp:
  "map_sum id (map_option (parsed_at_update (\<lambda>_. z))) (normalize_row cfg gold_type s1 m)
   = map_sum id (map_option (parsed_at_update (\<lambda>_. z))) (normalize_row cfg gold_type s2 m)"
  by (simp add: normalize_row_def Let_def split: sum.split)

lemma build_loop_stamp:
  assumes "map (parsed_at_update (\<lambda>_. z)) acc1 = map (parsed_at_update (\<lambda>_. z)) acc2"
  shows "map_sum id (map (parsed_at_update (\<lambda>_. z))) (build_loop cfg gold_type now1 ms acc1)
     = map_sum id (map (parsed_at_update (\<lambda>_. z))) (build_loop cfg gold_type now2 ms acc2)"
  using assms
proof (induction ms arbitrary: acc1 acc2)
  case Nil
  then show ?case by simp
next
  case (Cons m ms)
  show ?case
  proof (cases "7 \<le> length m")
    case False
    then show ?thesis using Cons by simp
  next
    case True
    let ?n1 = "normalize_row cfg gold_type (now1 (length acc1)) m"
    let ?n2 = "normalize_row cfg gold_type (now2 (length acc2)) m"
    have eq: "map_sum id (map_option (parsed_at_update (\<lambda>_. z))) ?n1
       = map_sum id (map_option (parsed_at_update (\<lambda>_. z))) ?n2"
      by (rule normalize_row_stamp)
    show ?thesis
    proof (cases ?n1)
      case (Inl e)
      with eq have "?n2 = Inl e" by (cases ?n2) simp_all
      then show ?thesis using Inl True by simp
    next
      case (Inr o1)
      with eq obtain o2 where o2: "?n2 = Inr o2"
        "map_option (parsed_at_update (\<lambda>_. z)) o1 = map_option (parsed_at_update (\<lambda>_. z)) o2"
        by (cases ?n2) simp_all
      show ?thesis
      proof (cases o1)
        case None
        with o2 have "o2 = None" by simp
        then show ?thesis using Inr None o2(1) True Cons by simp
      next
        case (Some r1)
        with o2 obtain r2 where r2: "o2 = Some r2"
          "parsed_at_update (\<lambda>_. z) r1 = parsed_at_update (\<lambda>_. z) r2"
          by (cases o2) simp_all
        have "map (parsed_at_update (\<lambda>_. z)) (acc1 @ [r1])
            = map (parsed_at_update (\<lambda>_. z)) (acc2 @ [r2])"
          using Cons.prems r2(2) by simp
        from Cons.IH [OF this] show ?thesis
          using Inr Some o2(1) r2(1) True by simp
      qed
    qed
  qed
qed

text \<open>
  Claim C9. Two runs of extraction on the same text and the same category differ only
  in the clock. Either both raise the same error, or both return records, of the same
  number, that are equal once the parse time is erased.
\<close>

theorem parse_deterministic_up_to_timestamp:
  "map_sum id (map (parsed_at_update (\<lambda>_. [])))
       (parse_complete_gold_data now1 html_text gold_type)
     = map_sum id (map (parsed_at_update (\<lambda>_. [])))
       (parse_complete_gold_data now2 html_text gold_type)
   \<and> (\<forall>recs1. parse_complete_gold_data now1 html_text gold_type = Inr recs1 \<longrightarrow>
         (\<exists>recs2. parse_complete_gold_data now2 html_text gold_type = Inr recs2
            \<and> length recs2 = length recs1
            \<and> map (parsed_at_update (\<lambda>_. [])) recs2 = map (parsed_at_update (\<lambda>_. [])) recs1))"
proof -
  have eq: "map_sum id (map (parsed_at_update (\<lambda>_. [])))
       (parse_complete_gold_data now1 html_text gold_type)
     = map_sum id (map (parsed_at_update (\<lambda>_. [])))
       (parse_complete_gold_data now2 html_text gold_type)"
    by (cases "get_config gold_type")
       (simp_all add: parse_complete_gold_data_def Let_def build_loop_stamp)
  have "\<exists>recs2. parse_complete_gold_data now2 html_text gold_type = Inr recs2
            \<and> length recs2 = length recs1
            \<and> map (parsed_at_update (\<lambda>_. [])) recs2 = map (parsed_at_update (\<lambda>_. [])) recs1"
    if "parse_complete_gold_data now1 html_text gold_type = Inr recs1" for recs1
  proof -
    from eq that obtain recs2 where
      r2: "parse_complete_gold_data now2 html_text gold_type = Inr recs2"
      "map (parsed_at_update (\<lambda>_. [])) recs1 = map (parsed_at_update (\<lambda>_. [])) recs2"
      by (cases "parse_complete_gold_data now2 html_text gold_type") simp_all
    from r2(2) have "length recs1 = length recs2" by (rule map_eq_imp_length_eq)
    with r2 show ?thesis by simp
  qed
  with eq show ?thesis by blast
qed

text \<open>The theorem at the page of the two example rows and two clocks.\<close>

theorem parse_deterministic_up_to_timestamp_witness:
  "\<exists>recs1 recs2.
     parse_complete_gold_data (\<lambda>k. py ''2025-09-17T10:00:00'')
       (render_page [] example_rows) (Member JEWELRY) = Inr recs1
   \<and> parse_complete_gold_data (\<lambda>k. py ''2025-09-18T11:30:00'')
       (render_page [] example_rows) (Member JEWELRY) = Inr recs2
   \<and> length recs1 = 2 \<and> length recs2 = 2
   \<and> map (parsed_at_update (\<lambda>_. [])) recs2 = map (parsed_at_update (\<lambda>_. [])) recs1"
proof -
  from parse_example_rows [of "\<lambda>k. py ''2025-09-17T10:00:00''"] obtain r0 r1 where
    p1: "parse_complete_gold_data (\<lambda>k. py ''2025-09-17T10:00:00'')
       (render_page [] example_rows) (Member JEWELRY) = Inr [r0, r1]"
    by blast
  from parse_deterministic_up_to_timestamp [of "\<lambda>k. py ''2025-09-17T10:00:00''"
      "render_page [] example_rows" "Member JEWELRY" "\<lambda>k. py ''2025-09-18T11:30:00''"] p1
  obtain recs2 where
    "parse_complete_gold_data (\<lambda>k. py ''2025-09-18T11:30:00'')
       (render_page [] example_rows) (Member JEWELRY) = Inr recs2"
    "length recs2 = length [r0, r1]"
    "map (parsed_at_update (\<lambda>_. [])) recs2 = map (parsed_at_update (\<lambda>_. [])) [r0, r1]"
    by blast
  with p1 show ?thesis by simp
qed

end
